theory Spec2Isabelle
  imports Main "HOL-Library.AList"
begin

section \<open>Data model of cli-parser.ts\<close>

text \<open>
  The parser reports every user-facing failure by constructing an \<open>ExitError\<close>, whose
  constructor prints the failure payload and calls \<open>std.exit(1)\<close>. Reading a property of
  \<open>undefined\<close> or \<open>null\<close> raises the engine's own \<open>TypeError\<close>, which nothing catches.
  Both are values of the model.
\<close>

datatype error = ExitError string | TypeError

text \<open>
  \<open>FlagValueType = string | number | boolean\<close>. An array read past the end yields
  \<open>undefined\<close>, which the model keeps as a value of its own. The number type of the
  engine is a parameter \<open>'n\<close>.
\<close>

datatype 'n FlagValueType = VUndefined | VString string | VNumber 'n | VBoolean bool

datatype FlagType = TString | TNumber | TBoolean

record 'n FlagConfig =
  type_flag :: FlagType
  default_flag :: "'n FlagValueType"
  description_flag :: string
  alias_flag :: string

text \<open>
  An object used as a dictionary (\<open>Record<string, T>\<close>) is the list of its own
  properties in the order \<open>Object.keys\<close> enumerates them; a property read is \<open>map_of\<close>.
\<close>

record 'n CommandType =
  description_cmd :: string
  args_cmd :: "string list"
  flags_cmd :: "(string \<times> 'n FlagConfig) list"

record 'n CliConfType =
  name :: string
  version :: string
  description :: string
  commands :: "(string \<times> 'n CommandType) list"

datatype Action = Command | Help | Version

text \<open>
  The \<open>command\<close> object of a result, \<open>{name, args, flags}\<close>. Its \<open>flags\<close> object starts as
  the literal \<open>{}\<close> and is only assigned to and printed: it is the map from the names of
  its own properties to their values. The order in which the engine enumerates the
  properties is not part of the model.
\<close>

record 'n CommandResult =
  cmd_name :: string
  cmd_args :: "string list"
  cmd_flags :: "string \<rightharpoonup> 'n FlagValueType"

record 'n InputActionType =
  success :: bool
  action :: Action
  output_str :: string
  command :: "'n CommandResult option"

section \<open>Strings and arrays of the host language\<close>

definition startsWith :: "string \<Rightarrow> string \<Rightarrow> bool" where
  "startsWith s p = (take (length p) s = p)"

text \<open>\<open>xs[i]\<close>: \<open>undefined\<close> (here \<open>None\<close>) past the end.\<close>

definition at :: "'a list \<Rightarrow> nat \<Rightarrow> 'a option" where
  "at xs i = (if i < length xs then Some (xs ! i) else None)"

fun join :: "string \<Rightarrow> string list \<Rightarrow> string" where
  "join sep [] = []"
| "join sep [x] = x"
| "join sep (x # y # ys) = x @ sep @ join sep (y # ys)"

section \<open>Reserved flags: version and help\<close>

fun isVersion_loop :: "string list \<Rightarrow> error + bool" where
  "isVersion_loop [] = Inr False"
| "isVersion_loop (arg # rest) =
     (if arg = ''--version'' \<or> arg = ''-v''
      then Inl (ExitError ''The --version|-v flag must be set alone'')
      else isVersion_loop rest)"

definition isVersion :: "string list \<Rightarrow> error + bool" where
  "isVersion inputCliArgs =
     (if length inputCliArgs = 0 then Inr False
      else
        let firstArg = inputCliArgs ! 0 in
        if firstArg = ''--version'' \<or> (firstArg = ''-v'' \<and> length inputCliArgs = 1)
        then Inr True
        else isVersion_loop inputCliArgs)"

fun isArgsIncludeHelpFlag_loop :: "string list \<Rightarrow> bool \<Rightarrow> error + bool" where
  "isArgsIncludeHelpFlag_loop [] isDetectHelpFlag = Inr isDetectHelpFlag"
| "isArgsIncludeHelpFlag_loop (arg # rest) isDetectHelpFlag =
     (if arg = ''--help'' \<or> arg = ''-h'' then
        (if isDetectHelpFlag
         then Inl (ExitError ''The --help|-h flag must be set alone'')
         else isArgsIncludeHelpFlag_loop rest True)
      else isArgsIncludeHelpFlag_loop rest isDetectHelpFlag)"

definition isArgsIncludeHelpFlag :: "string list \<Rightarrow> error + bool" where
  "isArgsIncludeHelpFlag inputCliArgs = isArgsIncludeHelpFlag_loop inputCliArgs False"

text \<open>
  \<open>removeHelpFlag\<close>: on the first help token the loop body runs \<open>i++\<close> and then
  \<open>continue\<close>, so the loop's own increment follows: the token after the help token is
  passed over as well (\<open>drop 1\<close>, which is the empty list at the end of the list).
\<close>

fun removeHelpFlag_loop :: "string list \<Rightarrow> bool \<Rightarrow> string list" where
  "removeHelpFlag_loop [] isRemove = []"
| "removeHelpFlag_loop (arg # rest) isRemove =
     (if (arg = ''--help'' \<or> arg = ''-h'') \<and> \<not> isRemove
      then removeHelpFlag_loop (drop 1 rest) True
      else arg # removeHelpFlag_loop rest isRemove)"

definition removeHelpFlag :: "string list \<Rightarrow> string list" where
  "removeHelpFlag inputCliArgs = removeHelpFlag_loop inputCliArgs False"

section \<open>Flags of a command\<close>

definition checkFlagNotEempty :: "string \<Rightarrow> error + unit" where
  "checkFlagNotEempty flag =
     (if flag = [] then Inl (ExitError (''The flag '' @ flag @ '' is not valid''))
      else Inr ())"

definition hasFlag :: "string \<Rightarrow> 'n CommandType \<Rightarrow> error + string" where
  "hasFlag arg commandConf =
     (if startsWith arg ''--'' then
        let flag = drop 2 arg in
        case checkFlagNotEempty flag of
          Inl e \<Rightarrow> Inl e
        | Inr _ \<Rightarrow>
            if flag \<notin> set (map fst (flags_cmd commandConf))
            then Inl (ExitError (''The flag '' @ flag @ '' is not a valid flag''))
            else Inr flag
      else Inr [])"

text \<open>
  The reverse mapping alias \<open>\<rightarrow>\<close> flag name, a \<open>Map\<close> filled by \<open>set\<close> in the order of
  \<open>Object.keys\<close>: a later flag with the same alias replaces the earlier one.
\<close>

definition aliasMapFlag :: "(string \<times> 'n FlagConfig) list \<Rightarrow> (string \<times> string) list" where
  "aliasMapFlag flags =
     foldl (\<lambda>m (flagName, flagConf). AList.update (alias_flag flagConf) flagName m) [] flags"

definition hasAliasFlag :: "string \<Rightarrow> 'n CommandType \<Rightarrow> string \<Rightarrow> error + string" where
  "hasAliasFlag arg commandConf cmd =
     (if startsWith arg ''-'' then
        let aliasFlag = drop 1 arg in
        case checkFlagNotEempty aliasFlag of
          Inl e \<Rightarrow> Inl e
        | Inr _ \<Rightarrow>
            (case map_of (aliasMapFlag (flags_cmd commandConf)) aliasFlag of
               None \<Rightarrow>
                 Inl (ExitError (''The flag '' @ aliasFlag @ '' is not a valid flag in '' @ cmd))
             | Some flagName \<Rightarrow> Inr flagName)
      else Inr [])"

text \<open>
  \<open>checkFlag\<close>: \<open>Object.keys(flags).find(f => f === inputFlag)\<close> is falsy when the flag
  is not a key, and also when the key found is the empty string.
\<close>

definition checkFlag ::
  "nat \<Rightarrow> string \<Rightarrow> 'n CommandType \<Rightarrow> string list \<Rightarrow> string \<Rightarrow> error + unit" where
  "checkFlag inputArgsIndex inputFlag inputCommandConf inputCliArgs inputCommandName =
     (if inputFlag \<in> set (map fst (flags_cmd inputCommandConf)) \<and> inputFlag \<noteq> [] then
        (case map_of (flags_cmd inputCommandConf) inputFlag of
           None \<Rightarrow> Inl TypeError
         | Some flagConf \<Rightarrow>
             if (type_flag flagConf = TString \<or> type_flag flagConf = TNumber)
                \<and> length inputCliArgs = inputArgsIndex + 1
             then Inl (ExitError (''The flag --'' @ inputFlag
                        @ '' must have a value in command: '' @ inputCommandName))
             else Inr ())
      else Inl (ExitError (''The flag '' @ inputFlag @ '' is not a valid flag in command: ''
                  @ inputCommandName @ ''}'')))"

text \<open>
  \<open>parseFlag\<close> reads \<open>cliArgs[i + 1]\<close> without a test of its own; \<open>Number\<close> is the
  engine's conversion, applied to whatever was read.
\<close>

definition parseFlag ::
  "(string option \<Rightarrow> 'n) \<Rightarrow> 'n FlagConfig \<Rightarrow> string list \<Rightarrow> nat \<Rightarrow> 'n FlagValueType \<times> nat" where
  "parseFlag Number flagConf cliArgs i =
     (if type_flag flagConf = TNumber \<or> type_flag flagConf = TString then
        if type_flag flagConf = TNumber then (VNumber (Number (at cliArgs (i + 1))), i + 1)
        else ((case at cliArgs (i + 1) of None \<Rightarrow> VUndefined | Some v \<Rightarrow> VString v), i + 1)
      else (VBoolean True, i))"

definition checkCommand :: "string \<Rightarrow> 'n CliConfType \<Rightarrow> error + unit" where
  "checkCommand cmd cliConf =
     (if cmd \<notin> set (map fst (commands cliConf))
      then Inl (ExitError (''The command '' @ cmd @ '' is not a valid command''))
      else Inr ())"

section \<open>Help texts\<close>

definition formatLine :: "string \<Rightarrow> string \<Rightarrow> string" where
  "formatLine cell cell2 = cell @ [CHR 0x09, CHR 0x09] @ cell2"

definition helpDoc :: "'n CliConfType \<Rightarrow> string" where
  "helpDoc cliConf =
     (let commandDocs =
            map (\<lambda>(cmd, commandConf).
                   formatLine (name cliConf @ '' '' @ cmd) (description_cmd commandConf))
                (commands cliConf)
            @ [formatLine (name cliConf @ '' help'') ''search for help on <term>'',
               formatLine (name cliConf @ '' help <term>'') ''search for help on <term>'']
      in name cliConf @ '' - '' @ description cliConf @ [CHR 0x0A, CHR 0x0A]
         @ ''USAGE:'' @ [CHR 0x0A]
         @ join [CHR 0x0A] commandDocs @ [CHR 0x0A, CHR 0x0A]
         @ ''GLOBAL OPTIONS:'' @ [CHR 0x0A]
         @ ''--help, -h     show help (default: false)'' @ [CHR 0x0A]
         @ ''--version, -v  show version (default: false)'' @ [CHR 0x0A, CHR 0x0A]
         @ name cliConf @ ''@'' @ version cliConf)"

definition commandHelpDoc :: "'n InputActionType \<Rightarrow> 'n CliConfType \<Rightarrow> error + string" where
  "commandHelpDoc act cliConf =
     (case command act of
        None \<Rightarrow> Inl TypeError
      | Some c \<Rightarrow>
          (case map_of (commands cliConf) (cmd_name c) of
             None \<Rightarrow> Inl TypeError
           | Some commandConf \<Rightarrow>
               let argsDoc = map (\<lambda>a. ''<'' @ a @ ''>'') (args_cmd commandConf);
                   flagDocs = map (\<lambda>(flagName, flag).
                                     [CHR 0x09] @ ''--'' @ flagName @ [CHR 0x09, CHR 0x09]
                                     @ description_flag flag)
                                  (flags_cmd commandConf);
                   optionSectionDocs =
                     (if length flagDocs > 0
                      then [CHR 0x0A] @ ''Options:'' @ [CHR 0x0A]
                           @ join [CHR 0x0A] flagDocs @ [CHR 0x0A]
                      else [])
               in Inr (''Usage: '' @ [CHR 0x0A] @ ''  '' @ name cliConf @ '' '' @ cmd_name c
                       @ '' '' @ join '' '' argsDoc @ [CHR 0x0A, CHR 0x0A] @ ''  ''
                       @ description_cmd commandConf @ ''.'' @ optionSectionDocs
                       @ [CHR 0x0A])))"

section \<open>The argument parser\<close>

text \<open>
  \<open>result.command!.flags[flag] = value\<close> on an object created by the literal \<open>{}\<close>. The
  assignment creates or replaces the own property \<open>flag\<close>, except for the key
  \<open>__proto__\<close>: there it calls the setter inherited from \<open>Object.prototype\<close>, which does
  nothing when the value is not an object or \<open>null\<close>, and a flag value never is.
\<close>

definition setFlag :: "string \<Rightarrow> 'n FlagValueType \<Rightarrow> 'n InputActionType \<Rightarrow> 'n InputActionType" where
  "setFlag flag v result =
     result\<lparr>command :=
       map_option
         (\<lambda>c. c\<lparr>cmd_flags :=
                  (if flag = ''__proto__'' then cmd_flags c else (cmd_flags c)(flag \<mapsto> v))\<rparr>)
         (command result)\<rparr>"

definition pushArg :: "string \<Rightarrow> 'n InputActionType \<Rightarrow> 'n InputActionType" where
  "pushArg arg result =
     result\<lparr>command :=
       map_option (\<lambda>c. c\<lparr>cmd_args := cmd_args c @ [arg]\<rparr>) (command result)\<rparr>"

text \<open>
  The expression \<open>hasFlag(arg, commandConf) || hasAliasFlag(arg, commandConf, command)\<close>:
  the second call is made only when the first returned the empty string.
\<close>

definition flagOfArg :: "string \<Rightarrow> 'n CommandType \<Rightarrow> string \<Rightarrow> error + string" where
  "flagOfArg arg commandConf cmd =
     (case hasFlag arg commandConf of
        Inl e \<Rightarrow> Inl e
      | Inr f \<Rightarrow> if f \<noteq> [] then Inr f else hasAliasFlag arg commandConf cmd)"

text \<open>
  The \<open>for\<close> loop of \<open>inputParser\<close> over \<open>cliArgs\<close>, with its index and the result
  object it fills.
\<close>

function inputParser_loop ::
  "(string option \<Rightarrow> 'n) \<Rightarrow> 'n CliConfType \<Rightarrow> string \<Rightarrow> 'n CommandType \<Rightarrow> string list
     \<Rightarrow> nat \<Rightarrow> 'n InputActionType \<Rightarrow> error + 'n InputActionType" where
  "inputParser_loop Number cliConf cmd commandConf cliArgs i result =
     (if i < length cliArgs then
        (let arg = cliArgs ! i in
         if arg = ''--version'' \<or> arg = ''-v'' then
           Inr (result\<lparr>action := Version, output_str := name cliConf @ ''@'' @ version cliConf\<rparr>)
         else
           (case flagOfArg arg commandConf cmd of
              Inl e \<Rightarrow> Inl e
            | Inr flag \<Rightarrow>
                if flag \<noteq> [] then
                  (case checkFlag i flag commandConf cliArgs cmd of
                     Inl e \<Rightarrow> Inl e
                   | Inr _ \<Rightarrow>
                       (case map_of (flags_cmd commandConf) flag of
                          None \<Rightarrow> Inl TypeError
                        | Some flagConf \<Rightarrow>
                            inputParser_loop Number cliConf cmd commandConf cliArgs
                              (snd (parseFlag Number flagConf cliArgs i) + 1)
                              (setFlag flag (fst (parseFlag Number flagConf cliArgs i)) result)))
                else
                  inputParser_loop Number cliConf cmd commandConf cliArgs (i + 1)
                    (pushArg arg result)))
      else Inr result)"
  by pat_completeness auto
termination
  by (relation "measure (\<lambda>(Number, cliConf, cmd, commandConf, cliArgs, i, result). length cliArgs - i)")
     (auto simp: parseFlag_def)

declare inputParser_loop.simps [simp del]

definition inputParser ::
  "(string option \<Rightarrow> 'n) \<Rightarrow> string list \<Rightarrow> 'n CliConfType \<Rightarrow> error + 'n InputActionType" where
  "inputParser Number inputCliArgs cliConf =
     (case isVersion inputCliArgs of
        Inl e \<Rightarrow> Inl e
      | Inr isV \<Rightarrow>
          if isV then
            Inr \<lparr>success = True, action = Version,
                 output_str = name cliConf @ ''@'' @ version cliConf, command = None\<rparr>
          else
            (case isArgsIncludeHelpFlag inputCliArgs of
               Inl e \<Rightarrow> Inl e
             | Inr isHelpe \<Rightarrow>
                 let inputCliArgs = (if isHelpe then removeHelpFlag inputCliArgs else inputCliArgs) in
                 if length inputCliArgs = 0 then
                   Inr \<lparr>success = False, action = Help, output_str = helpDoc cliConf, command = None\<rparr>
                 else
                   let cmd = inputCliArgs ! 0 in
                   (case checkCommand cmd cliConf of
                      Inl e \<Rightarrow> Inl e
                    | Inr _ \<Rightarrow>
                        let result = \<lparr>success = True,
                                      action = (if isHelpe then Help else Command),
                                      output_str = [],
                                      command = Some \<lparr>cmd_name = cmd, cmd_args = [], cmd_flags = Map.empty\<rparr>\<rparr>
                        in
                        (case map_of (commands cliConf) cmd of
                           None \<Rightarrow> Inl TypeError
                         | Some commandConf \<Rightarrow>
                             inputParser_loop Number cliConf cmd commandConf
                               (drop 1 inputCliArgs) 0 result))))"

section \<open>The reserved flag --config\<close>

function checkConfFlag_loop :: "string list \<Rightarrow> nat \<Rightarrow> bool \<Rightarrow> error + bool" where
  "checkConfFlag_loop cliArgs i hasConfFlag =
     (if i < length cliArgs then
        (let arg = cliArgs ! i in
         if arg = ''--config'' \<or> arg = ''-c'' then
           (if length cliArgs = i + 1
            then Inl (ExitError ''The --config|-c flag must be set with a value'')
            else checkConfFlag_loop cliArgs (i + 1) True)
         else checkConfFlag_loop cliArgs (i + 1) hasConfFlag)
      else Inr hasConfFlag)"
  by pat_completeness auto
termination
  by (relation "measure (\<lambda>(cliArgs, i, hasConfFlag). length cliArgs - i)") auto

declare checkConfFlag_loop.simps [simp del]

definition checkConfFlag :: "string list \<Rightarrow> error + unit" where
  "checkConfFlag cliArgs =
     (case checkConfFlag_loop cliArgs 0 False of
        Inl e \<Rightarrow> Inl e
      | Inr hasConfFlag \<Rightarrow>
          if \<not> hasConfFlag then Inl (ExitError ''The --config|-c flag must be set'')
          else Inr ())"

text \<open>
  The \<open>forEach\<close> at the head of \<open>cliConfParser\<close>, with its index \<open>i\<close> and the variable
  \<open>cliConfig\<close> it assigns. \<open>nextArg.startsWith\<close> on an \<open>undefined\<close> \<open>nextArg\<close> is a
  \<open>TypeError\<close>.
\<close>

function cliConfParser_forEach :: "string list \<Rightarrow> nat \<Rightarrow> string \<Rightarrow> error + string" where
  "cliConfParser_forEach cliArgs i cliConfig =
     (if i < length cliArgs then
        (let arg = cliArgs ! i;
             isConfigFlag = (arg = ''--config'' \<or> arg = ''-c'');
             hasNextArg = (i + 1 \<le> length cliArgs)
         in
         if isConfigFlag \<and> hasNextArg then
           (case at cliArgs (i + 1) of
              None \<Rightarrow> Inl TypeError
            | Some nextArg \<Rightarrow>
                cliConfParser_forEach cliArgs (i + 1)
                  (if \<not> startsWith nextArg ''-'' then nextArg else cliConfig))
         else cliConfParser_forEach cliArgs (i + 1) cliConfig)
      else Inr cliConfig)"
  by pat_completeness auto
termination
  by (relation "measure (\<lambda>(cliArgs, i, cliConfig). length cliArgs - i)") auto

declare cliConfParser_forEach.simps [simp del]

definition cliConfParser_locator :: "string list \<Rightarrow> error + string" where
  "cliConfParser_locator cliArgs =
     (case cliConfParser_forEach cliArgs 0 [] of
        Inl e \<Rightarrow> Inl e
      | Inr cliConfig \<Rightarrow>
          if cliConfig = []
          then Inl (ExitError
                 ''No config file found, please add a config with the --config | -c flag'')
          else Inr cliConfig)"

text \<open>
  Occurrence \<open>i\<close> of the flag yields a locator: the token after it exists and does not
  start with \<open>-\<close>. (Used to state what the scan records.)
\<close>

definition yieldsLocator :: "string list \<Rightarrow> nat \<Rightarrow> bool" where
  "yieldsLocator cliArgs i =
     (i + 1 < length cliArgs \<and> (cliArgs ! i = ''--config'' \<or> cliArgs ! i = ''-c'')
      \<and> \<not> startsWith (cliArgs ! (i + 1)) ''-'')"

fun removeConfFlag_loop :: "string list \<Rightarrow> bool \<Rightarrow> string list" where
  "removeConfFlag_loop [] isRemove = []"
| "removeConfFlag_loop (arg # rest) isRemove =
     (if (arg = ''--config'' \<or> arg = ''-c'') \<and> \<not> isRemove
      then removeConfFlag_loop (drop 1 rest) True
      else arg # removeConfFlag_loop rest isRemove)"

definition removeConfFlag :: "string list \<Rightarrow> string list" where
  "removeConfFlag inputCliArgs = removeConfFlag_loop inputCliArgs False"

section \<open>Values read from the configuration text\<close>

text \<open>
  What \<open>JSON5.parse\<close> returns. An object is the list of its own properties in the order
  of \<open>Object.keys\<close>, each key once.
\<close>

datatype 'n json =
    JNull
  | JBoolean bool
  | JNumber 'n
  | JString string
  | JArray "'n json list"
  | JObject "(string \<times> 'n json) list"

fun typeof :: "'n json option \<Rightarrow> string" where
  "typeof None = ''undefined''"
| "typeof (Some JNull) = ''object''"
| "typeof (Some (JBoolean b)) = ''boolean''"
| "typeof (Some (JNumber n)) = ''number''"
| "typeof (Some (JString s)) = ''string''"
| "typeof (Some (JArray xs)) = ''object''"
| "typeof (Some (JObject kvs)) = ''object''"

fun show_nat :: "nat \<Rightarrow> string" where
  "show_nat n =
     (if n < 10 then [''0123456789'' ! n]
      else show_nat (n div 10) @ [''0123456789'' ! (n mod 10)])"

declare show_nat.simps [simp del]

definition indices :: "nat \<Rightarrow> string list" where
  "indices n = map show_nat [0..<n]"

text \<open>\<open>Object.prototype.hasOwnProperty.call(x, k)\<close>; on \<open>null\<close> it is a \<open>TypeError\<close>.\<close>

fun hasOwnProperty :: "'n json \<Rightarrow> string \<Rightarrow> error + bool" where
  "hasOwnProperty JNull k = Inl TypeError"
| "hasOwnProperty (JObject kvs) k = Inr (k \<in> set (map fst kvs))"
| "hasOwnProperty (JArray xs) k = Inr (k \<in> set (indices (length xs)) \<or> k = ''length'')"
| "hasOwnProperty (JString s) k = Inr (k \<in> set (indices (length s)) \<or> k = ''length'')"
| "hasOwnProperty (JBoolean b) k = Inr False"
| "hasOwnProperty (JNumber n) k = Inr False"

text \<open>
  \<open>Object.keys(x)\<close> with the value of each key, for the loops
  \<open>Object.keys(x).forEach(k => ... x[k] ...)\<close>.
\<close>

fun entries :: "'n json \<Rightarrow> error + (string \<times> 'n json) list" where
  "entries JNull = Inl TypeError"
| "entries (JObject kvs) = Inr kvs"
| "entries (JArray xs) = Inr (zip (indices (length xs)) xs)"
| "entries (JString s) = Inr (zip (indices (length s)) (map (\<lambda>c. JString [c]) s))"
| "entries (JBoolean b) = Inr []"
| "entries (JNumber n) = Inr []"

text \<open>
  \<open>x.k\<close> for the property names the validator reads (none is an index, \<open>length\<close> or a
  builtin of a prototype): the own property of an object, \<open>undefined\<close> otherwise. Every
  such read follows a successful \<open>hasOwnProperty\<close> or \<open>Object.keys\<close> on the same value.
\<close>

fun getProp :: "'n json \<Rightarrow> string \<Rightarrow> 'n json option" where
  "getProp (JObject kvs) k = map_of kvs k"
| "getProp j k = None"

fun forEach :: "('a \<Rightarrow> error + unit) \<Rightarrow> 'a list \<Rightarrow> error + unit" where
  "forEach f [] = Inr ()"
| "forEach f (x # xs) = (case f x of Inl e \<Rightarrow> Inl e | Inr _ \<Rightarrow> forEach f xs)"

section \<open>Validation of the configuration\<close>

definition allowedTypes :: "string list" where
  "allowedTypes = [''string'', ''number'', ''boolean'']"

text \<open>\<open>[...allowedTypes].includes(v)\<close>: only a string is equal to a string.\<close>

fun includesAllowed :: "'n json option \<Rightarrow> bool" where
  "includesAllowed (Some (JString s)) = (s \<in> set allowedTypes)"
| "includesAllowed v = False"

fun isArray :: "'n json option \<Rightarrow> bool" where
  "isArray (Some (JArray xs)) = True"
| "isArray v = False"

fun elements :: "'n json option \<Rightarrow> 'n json list" where
  "elements (Some (JArray xs)) = xs"
| "elements v = []"

text \<open>\<open>Object.keys(v)\<close> of a value that was read from a property.\<close>

fun entriesOf :: "'n json option \<Rightarrow> error + (string \<times> 'n json) list" where
  "entriesOf None = Inl TypeError"
| "entriesOf (Some j) = entries j"

text \<open>The body of \<open>commandConf.args.forEach\<close>.\<close>

definition cliConfParser_arg :: "string \<Rightarrow> 'n json \<Rightarrow> error + unit" where
  "cliConfParser_arg commandName arg =
     (case hasOwnProperty arg ''name'' of
        Inl e \<Rightarrow> Inl e
      | Inr has \<Rightarrow>
          if \<not> has then
            Inl (ExitError (''The command arg must have a name property in commands.''
                   @ commandName))
          else if typeof (getProp arg ''name'') \<noteq> ''string'' then
            Inl (ExitError (''The command arg name property must be a string in commands.''
                   @ commandName))
          else Inr ())"

text \<open>The body of \<open>Object.keys(commandConf.flags).forEach\<close>.\<close>

definition cliConfParser_flag :: "string \<Rightarrow> string \<times> 'n json \<Rightarrow> error + unit" where
  "cliConfParser_flag commandName flagEntry =
     (let flagName = fst flagEntry; flagConf = snd flagEntry in
      case hasOwnProperty flagConf ''type'' of
        Inl e \<Rightarrow> Inl e
      | Inr hasType \<Rightarrow>
      if \<not> hasType then
        Inl (ExitError (''The command flag must have a type property in commands.''
               @ commandName))
      else if \<not> includesAllowed (getProp flagConf ''type'') then
        Inl (ExitError
              (''The command flag type property must be a string, number or boolean in commands.''
               @ commandName @ ''.flags.'' @ flagName))
      else
      case hasOwnProperty flagConf ''default'' of
        Inl e \<Rightarrow> Inl e
      | Inr hasDefault \<Rightarrow>
      if \<not> hasDefault then
        Inl (ExitError (''The command flag must have a default property in commands.''
               @ commandName @ ''.flags.'' @ flagName))
      else if typeof (getProp flagConf ''default'') \<notin> set allowedTypes then
        Inl (ExitError
              (''The command flag default property must be a string, number or boolean in commands.''
               @ commandName @ ''.flags.'' @ flagName))
      else
      case hasOwnProperty flagConf ''description'' of
        Inl e \<Rightarrow> Inl e
      | Inr hasDescription \<Rightarrow>
      if \<not> hasDescription then
        Inl (ExitError (''The command flag must have a description property in commands.''
               @ commandName @ ''.flags.'' @ flagName))
      else if typeof (getProp flagConf ''description'') \<noteq> ''string'' then
        Inl (ExitError (''The command flag description property must be a string in commands.''
               @ commandName @ ''.flags.'' @ flagName))
      else
      case hasOwnProperty flagConf ''alias'' of
        Inl e \<Rightarrow> Inl e
      | Inr hasAlias \<Rightarrow>
      if \<not> hasAlias then
        Inl (ExitError (''The command flag must have an alias property in commands.''
               @ commandName @ ''.flags.'' @ flagName))
      else if typeof (getProp flagConf ''alias'') \<noteq> ''string'' then
        Inl (ExitError (''The command flag alias property must be a string in commands.''
               @ commandName @ ''.flags.'' @ flagName))
      else Inr ())"

text \<open>The body of \<open>Object.keys(cliConfObj.commands).forEach\<close>.\<close>

definition cliConfParser_command :: "string \<times> 'n json \<Rightarrow> error + unit" where
  "cliConfParser_command commandEntry =
     (let commandName = fst commandEntry; commandConf = snd commandEntry in
      case entries commandConf of
        Inl e \<Rightarrow> Inl e
      | Inr props \<Rightarrow>
      if ''description'' \<notin> set (map fst props) then
        Inl (ExitError (''the commands.'' @ commandName
               @ ''.description property in config was required''))
      else if typeof (getProp commandConf ''description'') \<noteq> ''string'' then
        Inl (ExitError (''the commands.'' @ commandName
               @ ''.description property must be a string''))
      else
      case hasOwnProperty commandConf ''args'' of
        Inl e \<Rightarrow> Inl e
      | Inr hasArgs \<Rightarrow>
      if \<not> hasArgs then
        Inl (ExitError (''The command must have an args property in commands.'' @ commandName))
      else if \<not> isArray (getProp commandConf ''args'') then
        Inl (ExitError (''The command args property must be an array in commands.''
               @ commandName))
      else
      case forEach (cliConfParser_arg commandName) (elements (getProp commandConf ''args'')) of
        Inl e \<Rightarrow> Inl e
      | Inr _ \<Rightarrow>
      case hasOwnProperty commandConf ''flags'' of
        Inl e \<Rightarrow> Inl e
      | Inr hasFlags \<Rightarrow>
      if \<not> hasFlags then
        Inl (ExitError (''The command must have an flags property in commands.''
               @ commandName))
      else if typeof (getProp commandConf ''flags'') \<noteq> ''object'' then
        Inl (ExitError (''The command flags property must be an object in commands.''
               @ commandName))
      else
      case entriesOf (getProp commandConf ''flags'') of
        Inl e \<Rightarrow> Inl e
      | Inr flagEntries \<Rightarrow> forEach (cliConfParser_flag commandName) flagEntries)"

text \<open>The checks of \<open>cliConfParser\<close> on the parsed object, in the order of the source.\<close>

definition cliConfParser_check :: "'n json \<Rightarrow> error + unit" where
  "cliConfParser_check cliConfObj =
     (case hasOwnProperty cliConfObj ''name'' of
        Inl e \<Rightarrow> Inl e
      | Inr hasName \<Rightarrow>
      if \<not> hasName then Inl (ExitError ''Config must have a name property'')
      else if typeof (getProp cliConfObj ''name'') \<noteq> ''string'' then
        Inl (ExitError ''The name property must be a string'')
      else
      case hasOwnProperty cliConfObj ''version'' of
        Inl e \<Rightarrow> Inl e
      | Inr hasVersion \<Rightarrow>
      if \<not> hasVersion then Inl (ExitError ''Config must have a version property'')
      else if typeof (getProp cliConfObj ''version'') \<noteq> ''string'' then
        Inl (ExitError ''The version property must be a string'')
      else
      case hasOwnProperty cliConfObj ''description'' of
        Inl e \<Rightarrow> Inl e
      | Inr hasDescription \<Rightarrow>
      if \<not> hasDescription then Inl (ExitError ''Config must have a description property'')
      else if typeof (getProp cliConfObj ''description'') \<noteq> ''string'' then
        Inl (ExitError ''The description property must be a string'')
      else
      case hasOwnProperty cliConfObj ''commands'' of
        Inl e \<Rightarrow> Inl e
      | Inr hasCommands \<Rightarrow>
      if \<not> hasCommands then Inl (ExitError ''Config must have a commands property'')
      else if typeof (getProp cliConfObj ''commands'') \<noteq> ''object'' then
        Inl (ExitError ''The commands property must be an object'')
      else
      case entriesOf (getProp cliConfObj ''commands'') of
        Inl e \<Rightarrow> Inl e
      | Inr commandEntries \<Rightarrow> forEach cliConfParser_command commandEntries)"

subsection \<open>The validated object, read at the type \<open>CliConfType\<close>\<close>

text \<open>
  \<open>return cliConfObj as CliConfType\<close>: the same object, read through the declared
  types. A \<open>type\<close> that is neither \<open>number\<close> nor \<open>string\<close> is treated by
  \<open>checkFlag\<close> and \<open>parseFlag\<close> as \<open>boolean\<close>.
\<close>

fun asString :: "'n json option \<Rightarrow> string" where
  "asString (Some (JString s)) = s"
| "asString v = []"

fun asFlagValue :: "'n json option \<Rightarrow> 'n FlagValueType" where
  "asFlagValue (Some (JString s)) = VString s"
| "asFlagValue (Some (JNumber n)) = VNumber n"
| "asFlagValue (Some (JBoolean b)) = VBoolean b"
| "asFlagValue v = VUndefined"

definition asFlagType :: "'n json option \<Rightarrow> FlagType" where
  "asFlagType v =
     (if v = Some (JString ''string'') then TString
      else if v = Some (JString ''number'') then TNumber
      else TBoolean)"

definition entriesOrEmpty :: "'n json option \<Rightarrow> (string \<times> 'n json) list" where
  "entriesOrEmpty v = (case entriesOf v of Inl e \<Rightarrow> [] | Inr kvs \<Rightarrow> kvs)"

definition asFlagConfig :: "'n json \<Rightarrow> 'n FlagConfig" where
  "asFlagConfig flagConf =
     \<lparr>type_flag = asFlagType (getProp flagConf ''type''),
      default_flag = asFlagValue (getProp flagConf ''default''),
      description_flag = asString (getProp flagConf ''description''),
      alias_flag = asString (getProp flagConf ''alias'')\<rparr>"

definition asCommandType :: "'n json \<Rightarrow> 'n CommandType" where
  "asCommandType commandConf =
     \<lparr>description_cmd = asString (getProp commandConf ''description''),
      args_cmd = map (\<lambda>a. asString (getProp a ''name'')) (elements (getProp commandConf ''args'')),
      flags_cmd = map (\<lambda>(flagName, flagConf). (flagName, asFlagConfig flagConf))
                    (entriesOrEmpty (getProp commandConf ''flags''))\<rparr>"

definition asCliConfType :: "'n json \<Rightarrow> 'n CliConfType" where
  "asCliConfType cliConfObj =
     \<lparr>name = asString (getProp cliConfObj ''name''),
      version = asString (getProp cliConfObj ''version''),
      description = asString (getProp cliConfObj ''description''),
      commands = map (\<lambda>(commandName, commandConf). (commandName, asCommandType commandConf))
                   (entriesOrEmpty (getProp cliConfObj ''commands''))\<rparr>"

text \<open>
  \<open>cliConfParser\<close>. \<open>JSON5.parse\<close> belongs to a library outside the sources: it is the
  parameter \<open>parse\<close>, \<open>None\<close> when it throws.
\<close>

definition cliConfParser ::
  "(string \<Rightarrow> 'n json option) \<Rightarrow> string list \<Rightarrow> error + 'n CliConfType" where
  "cliConfParser parse cliArgs =
     (case cliConfParser_locator cliArgs of
        Inl e \<Rightarrow> Inl e
      | Inr cliConfig \<Rightarrow>
          (case parse cliConfig of
             None \<Rightarrow> Inl (ExitError ''Invalid config'')
           | Some cliConfObj \<Rightarrow>
               (case cliConfParser_check cliConfObj of
                  Inl e \<Rightarrow> Inl e
                | Inr _ \<Rightarrow> Inr (asCliConfType cliConfObj))))"

section \<open>The top-level driver\<close>

text \<open>
  The statements at the end of the file, on \<open>scriptArgs\<close>. The result is what the script
  prints; \<open>exit_status\<close> is the status the process ends with: 1 from the constructor of
  \<open>ExitError\<close>, 1 from the last statement when \<open>success\<close> is false, 0 when the script
  runs to its end. An uncaught \<open>TypeError\<close> ends the script in the engine, whose status is
  not part of the sources.
\<close>

definition main ::
  "(string \<Rightarrow> 'n json option) \<Rightarrow> (string option \<Rightarrow> 'n) \<Rightarrow> string list
     \<Rightarrow> error + 'n InputActionType" where
  "main parse Number scriptArgs =
     (let cliArgs = drop 1 scriptArgs in
      case checkConfFlag cliArgs of
        Inl e \<Rightarrow> Inl e
      | Inr _ \<Rightarrow>
      case cliConfParser parse cliArgs of
        Inl e \<Rightarrow> Inl e
      | Inr cliConf \<Rightarrow>
      case inputParser Number (removeConfFlag cliArgs) cliConf of
        Inl e \<Rightarrow> Inl e
      | Inr result \<Rightarrow>
          if action result = Help \<and> command result \<noteq> None then
            (case commandHelpDoc result cliConf of
               Inl e \<Rightarrow> Inl e
             | Inr doc \<Rightarrow> Inr (result\<lparr>output_str := doc\<rparr>))
          else Inr result)"

fun exit_status :: "error + 'n InputActionType \<Rightarrow> nat option" where
  "exit_status (Inl (ExitError message)) = Some 1"
| "exit_status (Inl TypeError) = None"
| "exit_status (Inr result) = Some (if success result then 0 else 1)"

section \<open>The fields of a configuration, in the order of the traversal\<close>

text \<open>
  The specification's account of validation, to compare with \<open>cliConfParser_check\<close>: every
  required field is looked at on its own, whatever the outcome for the fields before it, in
  the order name, version, description, commands, and for each command its description,
  its args (each slot's name), its flags, and for each flag type, default, description,
  alias. \<open>configViolations\<close> lists the fields that are missing or mistyped, in that order,
  each with its path from the root. "Present" and "well typed" are the tests of the source
  (\<open>hasOwnProperty\<close>, \<open>typeof\<close>, \<open>Array.isArray\<close>, membership in the allowed types); a
  \<open>null\<close> where an object is read is listed as \<open>NullValue\<close>.
\<close>

datatype violation_kind = Missing | Mistyped | NullValue

type_synonym violation = "string list \<times> violation_kind"

definition nullAt :: "string list \<Rightarrow> 'n json option \<Rightarrow> violation list" where
  "nullAt path v = (if v = Some JNull then [(path, NullValue)] else [])"

definition fieldViolation ::
  "string list \<Rightarrow> 'n json \<Rightarrow> string \<Rightarrow> ('n json option \<Rightarrow> bool) \<Rightarrow> violation list" where
  "fieldViolation path obj field wellTyped =
     (if hasOwnProperty obj field = Inr True then
        (if wellTyped (getProp obj field) then [] else [(path @ [field], Mistyped)])
      else [(path @ [field], Missing)])"

definition isString :: "'n json option \<Rightarrow> bool" where
  "isString v = (typeof v = ''string'')"

definition isPrimitive :: "'n json option \<Rightarrow> bool" where
  "isPrimitive v = (typeof v \<in> set allowedTypes)"

definition isObject :: "'n json option \<Rightarrow> bool" where
  "isObject v = (typeof v = ''object'')"

definition flagViolations :: "string \<Rightarrow> string \<times> 'n json \<Rightarrow> violation list" where
  "flagViolations commandName flagEntry =
     (let path = [''commands'', commandName, ''flags'', fst flagEntry];
          flagConf = snd flagEntry
      in nullAt path (Some flagConf)
         @ fieldViolation path flagConf ''type'' includesAllowed
         @ fieldViolation path flagConf ''default'' isPrimitive
         @ fieldViolation path flagConf ''description'' isString
         @ fieldViolation path flagConf ''alias'' isString)"

definition argViolations :: "string \<Rightarrow> string \<times> 'n json \<Rightarrow> violation list" where
  "argViolations commandName argEntry =
     (let path = [''commands'', commandName, ''args'', fst argEntry];
          arg = snd argEntry
      in nullAt path (Some arg) @ fieldViolation path arg ''name'' isString)"

definition commandViolations :: "string \<times> 'n json \<Rightarrow> violation list" where
  "commandViolations commandEntry =
     (let commandName = fst commandEntry;
          path = [''commands'', commandName];
          commandConf = snd commandEntry;
          args = elements (getProp commandConf ''args'');
          flags = getProp commandConf ''flags''
      in nullAt path (Some commandConf)
         @ fieldViolation path commandConf ''description'' isString
         @ fieldViolation path commandConf ''args'' isArray
         @ concat (map (argViolations commandName) (zip (indices (length args)) args))
         @ fieldViolation path commandConf ''flags'' isObject
         @ nullAt (path @ [''flags'']) flags
         @ (if isObject flags
            then concat (map (flagViolations commandName) (entriesOrEmpty flags))
            else []))"

definition configViolations :: "'n json \<Rightarrow> violation list" where
  "configViolations cliConfObj =
     (let cmds = getProp cliConfObj ''commands'' in
      nullAt [] (Some cliConfObj)
      @ fieldViolation [] cliConfObj ''name'' isString
      @ fieldViolation [] cliConfObj ''version'' isString
      @ fieldViolation [] cliConfObj ''description'' isString
      @ fieldViolation [] cliConfObj ''commands'' isObject
      @ nullAt [''commands''] cmds
      @ (if isObject cmds then concat (map commandViolations (entriesOrEmpty cmds)) else []))"

text \<open>
  The diagnostic of each field, for a field that is missing and for one that is mistyped:
  the table of the messages that \<open>cliConfParser\<close> passes to \<open>ExitError\<close>, by the path of
  the field. In a path of a command's field, \<open>path ! 1\<close> is the command's name; in a path
  of a flag's field, \<open>path ! 3\<close> is the flag's name. \<open>cliConfParser_check\<close> makes no use of
  the table.
\<close>

definition diagnostic :: "string list \<Rightarrow> violation_kind \<Rightarrow> string" where
  "diagnostic path kind =
     (if path = [''name''] then
        (if kind = Missing then ''Config must have a name property''
         else ''The name property must be a string'')
      else if path = [''version''] then
        (if kind = Missing then ''Config must have a version property''
         else ''The version property must be a string'')
      else if path = [''description''] then
        (if kind = Missing then ''Config must have a description property''
         else ''The description property must be a string'')
      else if path = [''commands''] then
        (if kind = Missing then ''Config must have a commands property''
         else ''The commands property must be an object'')
      else if length path = 3 then
        (if last path = ''description'' then
           (if kind = Missing
            then ''the commands.'' @ path ! 1 @ ''.description property in config was required''
            else ''the commands.'' @ path ! 1 @ ''.description property must be a string'')
         else if last path = ''args'' then
           (if kind = Missing
            then ''The command must have an args property in commands.'' @ path ! 1
            else ''The command args property must be an array in commands.'' @ path ! 1)
         else
           (if kind = Missing
            then ''The command must have an flags property in commands.'' @ path ! 1
            else ''The command flags property must be an object in commands.'' @ path ! 1))
      else if path ! 2 = ''args'' then
        (if kind = Missing
         then ''The command arg must have a name property in commands.'' @ path ! 1
         else ''The command arg name property must be a string in commands.'' @ path ! 1)
      else if last path = ''type'' then
        (if kind = Missing
         then ''The command flag must have a type property in commands.'' @ path ! 1
         else ''The command flag type property must be a string, number or boolean in commands.''
              @ path ! 1 @ ''.flags.'' @ path ! 3)
      else if last path = ''default'' then
        (if kind = Missing
         then ''The command flag must have a default property in commands.''
              @ path ! 1 @ ''.flags.'' @ path ! 3
         else ''The command flag default property must be a string, number or boolean in commands.''
              @ path ! 1 @ ''.flags.'' @ path ! 3)
      else if last path = ''description'' then
        (if kind = Missing
         then ''The command flag must have a description property in commands.''
              @ path ! 1 @ ''.flags.'' @ path ! 3
         else ''The command flag description property must be a string in commands.''
              @ path ! 1 @ ''.flags.'' @ path ! 3)
      else
        (if kind = Missing
         then ''The command flag must have an alias property in commands.''
              @ path ! 1 @ ''.flags.'' @ path ! 3
         else ''The command flag alias property must be a string in commands.''
              @ path ! 1 @ ''.flags.'' @ path ! 3))"

text \<open>
  An outcome of the validator reports a list of violations when it is success for the
  empty list and otherwise the failure for the first violation of the list: a
  \<open>TypeError\<close> for a \<open>null\<close>, the diagnostic of the field for a missing or mistyped one.
\<close>

definition reports :: "error + unit \<Rightarrow> violation list \<Rightarrow> bool" where
  "reports outcome vs =
     (case vs of
        [] \<Rightarrow> outcome = Inr ()
      | v # rest \<Rightarrow>
          outcome = (if snd v = NullValue then Inl TypeError
                     else Inl (ExitError (diagnostic (fst v) (snd v)))))"

text \<open>
  \<open>mentions message s\<close>: the text \<open>s\<close> occurs in \<open>message\<close>. \<open>dotted\<close> is the dotted
  form of a path. A message names the exact path of a field (\<open>namesField\<close>) when it
  mentions the field's name and the dotted path of the object that holds the field.
\<close>

fun mentions :: "string \<Rightarrow> string \<Rightarrow> bool" where
  "mentions [] s = (s = [])"
| "mentions (c # cs) s = (take (length s) (c # cs) = s \<or> mentions cs s)"

definition dotted :: "string list \<Rightarrow> string" where
  "dotted path = join ''.'' path"

definition namesField :: "string \<Rightarrow> string list \<Rightarrow> bool" where
  "namesField message path =
     (mentions message (last path) \<and> mentions message (dotted (butlast path)))"

section \<open>Configurations that differ only in the declared defaults\<close>



section \<open>The tokens of a command that the scan recognises as flags\<close>

text \<open>
  The specification's account of the scan, to compare with \<open>inputParser\<close>. The tokens of
  a command are what is left of the argument list once the help flag is removed (by
  \<open>removeHelpFlag\<close>, when the list holds one) and the command name is dropped. A token
  takes a value when it resolves to a declared flag of type \<open>string\<close> or \<open>number\<close>. The
  token at position \<open>j + 1\<close> is consumed when the token at \<open>j\<close> is not consumed itself and
  takes a value. A flag is recognised at position \<open>j\<close> when the token there is not consumed
  and resolves to that flag, of non-empty name.
\<close>

definition takesValue :: "'n CommandType \<Rightarrow> string \<Rightarrow> string \<Rightarrow> bool" where
  "takesValue commandConf cmd arg =
     (case flagOfArg arg commandConf cmd of
        Inl e \<Rightarrow> False
      | Inr flag \<Rightarrow>
          flag \<noteq> []
          \<and> (case map_of (flags_cmd commandConf) flag of
               None \<Rightarrow> False
             | Some flagConf \<Rightarrow> type_flag flagConf = TString \<or> type_flag flagConf = TNumber))"

fun consumed :: "'n CommandType \<Rightarrow> string \<Rightarrow> string list \<Rightarrow> nat \<Rightarrow> bool" where
  "consumed commandConf cmd cliArgs 0 = False"
| "consumed commandConf cmd cliArgs (Suc j) =
     (\<not> consumed commandConf cmd cliArgs j \<and> takesValue commandConf cmd (cliArgs ! j))"

definition recognisedAt :: "'n CommandType \<Rightarrow> string \<Rightarrow> string list \<Rightarrow> nat \<Rightarrow> string \<Rightarrow> bool" where
  "recognisedAt commandConf cmd cliArgs j flag =
     (j < length cliArgs \<and> \<not> consumed commandConf cmd cliArgs j \<and> flag \<noteq> []
      \<and> flagOfArg (cliArgs ! j) commandConf cmd = Inr flag)"

definition scannedTokens :: "string list \<Rightarrow> string list" where
  "scannedTokens inputCliArgs =
     drop 1 (if ''--help'' \<in> set inputCliArgs \<or> ''-h'' \<in> set inputCliArgs
             then removeHelpFlag inputCliArgs else inputCliArgs)"

section \<open>Example configurations\<close>

text \<open>
  The configuration of the specification's examples: program \<open>app\<close>, version \<open>1.0\<close>, one
  command \<open>init\<close> with the boolean flag \<open>force\<close> (alias \<open>f\<close>); here with a second flag
  \<open>label\<close> of type string (alias \<open>l\<close>).
\<close>

definition initConf :: "'n CommandType" where
  "initConf =
     \<lparr>description_cmd = ''x'', args_cmd = [],
      flags_cmd =
        [(''force'', \<lparr>type_flag = TBoolean, default_flag = VBoolean False,
                      description_flag = ''f'', alias_flag = ''f''\<rparr>),
         (''label'', \<lparr>type_flag = TString, default_flag = VString ''none'',
                      description_flag = ''l'', alias_flag = ''l''\<rparr>)]\<rparr>"

definition appConf :: "'n CliConfType" where
  "appConf =
     \<lparr>name = ''app'', version = ''1.0'', description = ''d'',
      commands = [(''init'', initConf)]\<rparr>"

text \<open>The same configuration as \<open>JSON5.parse\<close> returns it.\<close>

definition appJson :: "'n json" where
  "appJson =
     JObject
       [(''name'', JString ''app''), (''version'', JString ''1.0''),
        (''description'', JString ''d''),
        (''commands'',
         JObject
           [(''init'',
             JObject
               [(''description'', JString ''x''), (''args'', JArray []),
                (''flags'',
                 JObject
                   [(''force'',
                     JObject [(''type'', JString ''boolean''), (''default'', JBoolean False),
                              (''description'', JString ''f''), (''alias'', JString ''f'')]),
                    (''label'',
                     JObject [(''type'', JString ''string''), (''default'', JString ''none''),
                              (''description'', JString ''l''),
                              (''alias'', JString ''l'')])])])])]"

text \<open>A configuration whose command \<open>init\<close> declares one flag, of empty name and alias \<open>x\<close>.\<close>

definition emptyNameJson :: "'n json" where
  "emptyNameJson =
     JObject
       [(''name'', JString ''app''), (''version'', JString ''1.0''),
        (''description'', JString ''d''),
        (''commands'',
         JObject
           [(''init'',
             JObject
               [(''description'', JString ''x''), (''args'', JArray []),
                (''flags'',
                 JObject
                   [([],
                     JObject [(''type'', JString ''boolean''), (''default'', JBoolean False),
                              (''description'', JString ''e''),
                              (''alias'', JString ''x'')])])])])]"

text \<open>
  A configuration whose command \<open>init\<close> declares one flag, of name \<open>__proto__\<close> (an own
  property of the object \<open>flags\<close>, listed by \<open>Object.keys\<close>), boolean, of alias \<open>p\<close>.
\<close>

definition protoJson :: "'n json" where
  "protoJson =
     JObject
       [(''name'', JString ''app''), (''version'', JString ''1.0''),
        (''description'', JString ''d''),
        (''commands'',
         JObject
           [(''init'',
             JObject
               [(''description'', JString ''x''), (''args'', JArray []),
                (''flags'',
                 JObject
                   [(''__proto__'',
                     JObject [(''type'', JString ''boolean''), (''default'', JBoolean False),
                              (''description'', JString ''p''),
                              (''alias'', JString ''p'')])])])])]"

text \<open>
  Configurations with violations: a positional slot without a name (the first slot, then
  the second), and a command with a mistyped description and a flag without alias.
\<close>

definition arglessJson :: "'n json" where
  "arglessJson =
     JObject
       [(''name'', JString ''app''), (''version'', JString ''1.0''),
        (''description'', JString ''d''),
        (''commands'',
         JObject
           [(''init'',
             JObject
               [(''description'', JString ''x''),
                (''args'', JArray [JObject []]),
                (''flags'', JObject [])])])]"

definition secondArglessJson :: "'n json" where
  "secondArglessJson =
     JObject
       [(''name'', JString ''app''), (''version'', JString ''1.0''),
        (''description'', JString ''d''),
        (''commands'',
         JObject
           [(''init'',
             JObject
               [(''description'', JString ''x''),
                (''args'', JArray [JObject [(''name'', JString ''a'')], JObject []]),
                (''flags'', JObject [])])])]"

definition twoViolationsJson :: "'n json" where
  "twoViolationsJson =
     JObject
       [(''name'', JString ''app''), (''version'', JString ''1.0''),
        (''description'', JString ''d''),
        (''commands'',
         JObject
           [(''init'',
             JObject
               [(''description'', JBoolean True), (''args'', JArray []),
                (''flags'',
                 JObject
                   [(''force'',
                     JObject [(''type'', JString ''boolean''), (''default'', JBoolean False),
                              (''description'', JString ''f'')])])])])]"

section \<open>Properties of the version check\<close>

lemma isVersion_loop_rejects:
  "tok \<in> set xs \<Longrightarrow> tok = ''--version'' \<or> tok = ''-v'' \<Longrightarrow>
   isVersion_loop xs = Inl (ExitError ''The --version|-v flag must be set alone'')"
  by (induction xs) auto

lemma isVersion_rejects:
  assumes "tok \<in> set inputCliArgs" and "tok = ''--version'' \<or> tok = ''-v''"
    and "inputCliArgs ! 0 \<noteq> ''--version''" and "inputCliArgs \<noteq> [''-v'']"
  shows "isVersion inputCliArgs = Inl (ExitError ''The --version|-v flag must be set alone'')"
proof -
  from assms(1) obtain a rest where split: "inputCliArgs = a # rest"
    by (cases inputCliArgs) auto
  have loop: "isVersion_loop inputCliArgs
                = Inl (ExitError ''The --version|-v flag must be set alone'')"
    using assms(1,2) by (rule isVersion_loop_rejects)
  have "\<not> (a = ''--version'' \<or> (a = ''-v'' \<and> length inputCliArgs = 1))"
    using assms(3,4) split by auto
  then show ?thesis
    using loop split by (simp add: isVersion_def)
qed

text \<open>
  C4, as amended. An argument list whose first token is not \<open>--version\<close> and in which
  \<open>--version\<close> or \<open>-v\<close> occurs anywhere, other than \<open>-v\<close> as the sole token, is
  rejected with the error "The --version|-v flag must be set alone", whatever the other
  tokens and the configuration are.
\<close>

theorem inputParser_version_not_alone:
  assumes "tok \<in> set inputCliArgs" and "tok = ''--version'' \<or> tok = ''-v''"
    and "inputCliArgs ! 0 \<noteq> ''--version''" and "inputCliArgs \<noteq> [''-v'']"
  shows "inputParser Number inputCliArgs cliConf
           = Inl (ExitError ''The --version|-v flag must be set alone'')"
  using isVersion_rejects [OF assms] by (simp add: inputParser_def)

theorem inputParser_version_not_alone_witness:
  "inputParser (\<lambda>v. 0::int) [''-v'', ''init''] appConf
     = Inl (ExitError ''The --version|-v flag must be set alone'')"
  using inputParser_version_not_alone
          [of "''-v''" "[''-v'', ''init'']" "\<lambda>v. 0::int" appConf]
  by simp

text \<open>
  C4, as stated, fails when the first token is \<open>--version\<close>: the first test of
  \<open>isVersion\<close> answers before the scan, so a second version flag at a later position is
  accepted and the version is printed.
\<close>

theorem inputParser_version_first_counterexample:
  "[''--version'', ''-v''] ! 1 = ''-v''
   \<and> inputParser (\<lambda>v. 0::int) [''--version'', ''-v''] appConf
       = Inr \<lparr>success = True, action = Version, output_str = ''app@1.0'', command = None\<rparr>"
  by (simp add: inputParser_def isVersion_def appConf_def initConf_def)

text \<open>
  C3, as amended. When the first token is a declared command (other than the literal
  \<open>--version\<close>) and a later token is \<open>--version\<close> or \<open>-v\<close>, the parse ends with the error
  "The --version|-v flag must be set alone": \<open>isVersion\<close> rejects the list before the scan
  of the command's tokens starts.
\<close>

theorem inputParser_version_after_command:
  assumes "cmd \<in> set (map fst (commands cliConf))" and "cmd \<noteq> ''--version''"
    and "tok \<in> set rest" and "tok = ''--version'' \<or> tok = ''-v''"
  shows "inputParser Number (cmd # rest) cliConf
           = Inl (ExitError ''The --version|-v flag must be set alone'')"
proof -
  have "isVersion (cmd # rest) = Inl (ExitError ''The --version|-v flag must be set alone'')"
    using assms by (intro isVersion_rejects [of tok]) auto
  then show ?thesis by (simp add: inputParser_def)
qed

theorem inputParser_version_after_command_witness:
  "inputParser (\<lambda>v. 0::int) [''init'', ''--force'', ''-v''] appConf
     = Inl (ExitError ''The --version|-v flag must be set alone'')"
  using inputParser_version_after_command
          [of "''init''" appConf "''-v''" "[''--force'', ''-v'']" "\<lambda>v. 0::int"]
  by (simp add: appConf_def initConf_def)

text \<open>
  C3, as stated, fails: with the declared command \<open>init\<close> first and \<open>--version\<close> after
  it, the result is an error and not the version action.
\<close>

theorem inputParser_version_after_command_counterexample:
  "''init'' \<in> set (map fst (commands (appConf :: int CliConfType)))
   \<and> inputParser (\<lambda>v. 0::int) [''init'', ''--version''] appConf
       = Inl (ExitError ''The --version|-v flag must be set alone'')"
  by (simp add: inputParser_def isVersion_def appConf_def initConf_def)

section \<open>Properties of the help flag\<close>

text \<open>
  C2. \<open>removeHelpFlag\<close> passes over the token that follows the help flag: on
  \<open>--help init\<close> nothing is left, and the parse ends in the global help with
  \<open>success = false\<close> instead of the help of \<open>init\<close>.
\<close>

theorem removeHelpFlag_drops_following_token:
  "removeHelpFlag [''--help'', ''init''] = []
   \<and> removeHelpFlag [''-h'', ''init'', ''--force''] = [''--force'']
   \<and> inputParser (\<lambda>v. 0::int) [''--help'', ''init''] appConf
       = Inr \<lparr>success = False, action = Help, output_str = helpDoc (appConf :: int CliConfType),
             command = None\<rparr>"
  by (simp add: removeHelpFlag_def inputParser_def isVersion_def isArgsIncludeHelpFlag_def)

section \<open>Properties of the locator extraction\<close>

lemma checkConfFlag_loop_in_bounds:
  "checkConfFlag_loop cliArgs i h = Inr b \<Longrightarrow> i \<le> j \<Longrightarrow> j < length cliArgs \<Longrightarrow>
   cliArgs ! j = ''--config'' \<or> cliArgs ! j = ''-c'' \<Longrightarrow> j + 1 < length cliArgs"
proof (induction cliArgs i h rule: checkConfFlag_loop.induct)
  case (1 cliArgs i h)
  have i_lt: "i < length cliArgs" using "1.prems" by simp
  show ?case
  proof (cases "j = i")
    case True
    then show ?thesis
      using "1.prems" i_lt
      by (subst (asm) checkConfFlag_loop.simps) (auto simp: Let_def split: if_splits)
  next
    case False
    then have le: "i + 1 \<le> j" using "1.prems" by simp
    show ?thesis
    proof (cases "cliArgs ! i = ''--config'' \<or> cliArgs ! i = ''-c''")
      case True
      then have ne: "length cliArgs \<noteq> i + 1" and
          rec: "checkConfFlag_loop cliArgs (i + 1) True = Inr b"
        using "1.prems"(1) i_lt
        by (subst (asm) checkConfFlag_loop.simps; auto simp: Let_def split: if_splits)+
      show ?thesis
        using "1.IH"(1) [OF i_lt refl True ne rec le "1.prems"(3,4)] .
    next
      case False
      then have rec: "checkConfFlag_loop cliArgs (i + 1) h = Inr b"
        using "1.prems"(1) i_lt
        by (subst (asm) checkConfFlag_loop.simps) (auto simp: Let_def split: if_splits)
      show ?thesis
        using "1.IH"(2) [OF i_lt refl False rec le "1.prems"(3,4)] .
    qed
  qed
qed

lemma cliConfParser_forEach_returns:
  "(\<And>j. i \<le> j \<Longrightarrow> j < length cliArgs \<Longrightarrow> cliArgs ! j = ''--config'' \<or> cliArgs ! j = ''-c''
      \<Longrightarrow> j + 1 < length cliArgs) \<Longrightarrow>
   \<exists>s. cliConfParser_forEach cliArgs i c = Inr s"
proof (induction "length cliArgs - i" arbitrary: i c)
  case 0
  then show ?case by (subst cliConfParser_forEach.simps) simp
next
  case (Suc n)
  then have i_lt: "i < length cliArgs" by simp
  have step: "\<exists>s. cliConfParser_forEach cliArgs (i + 1) c' = Inr s" for c'
    using Suc.hyps(1) [of "i + 1" c'] Suc.hyps(2) Suc.prems by simp
  show ?case
  proof (cases "cliArgs ! i = ''--config'' \<or> cliArgs ! i = ''-c''")
    case True
    then have "i + 1 < length cliArgs" using Suc.prems [of i] i_lt by simp
    then show ?thesis
      using i_lt True step
      by (subst cliConfParser_forEach.simps) (simp add: Let_def at_def)
  next
    case False
    then show ?thesis
      using i_lt step
      by (subst cliConfParser_forEach.simps) (simp add: Let_def)
  qed
qed

lemma checkConfFlag_in_bounds:
  assumes "checkConfFlag cliArgs = Inr ()"
    and "j < length cliArgs" and "cliArgs ! j = ''--config'' \<or> cliArgs ! j = ''-c''"
  shows "j + 1 < length cliArgs"
proof -
  from assms(1) obtain b where "checkConfFlag_loop cliArgs 0 False = Inr b"
    by (auto simp: checkConfFlag_def split: sum.splits)
  then show ?thesis
    using checkConfFlag_loop_in_bounds [of cliArgs 0 False b j] assms(2,3) by simp
qed

text \<open>
  C10. When the presence check \<open>checkConfFlag\<close> has succeeded, every read of
  \<open>cliArgs[i + 1]\<close> by the extraction scan is inside the argument list (the read returns
  the token and not \<open>undefined\<close>), so the scan returns and raises no \<open>TypeError\<close>; its
  own test \<open>i + 1 <= cliArgs.length\<close> does not exclude the last index.
\<close>

theorem cliConfParser_forEach_in_bounds:
  assumes "checkConfFlag cliArgs = Inr ()"
  shows "(\<forall>i < length cliArgs. cliArgs ! i = ''--config'' \<or> cliArgs ! i = ''-c''
            \<longrightarrow> at cliArgs (i + 1) = Some (cliArgs ! (i + 1)))
         \<and> (\<exists>cliConfig. cliConfParser_forEach cliArgs 0 [] = Inr cliConfig)
         \<and> cliConfParser_locator cliArgs \<noteq> Inl TypeError"
proof -
  have bounds: "j + 1 < length cliArgs"
    if "j < length cliArgs" "cliArgs ! j = ''--config'' \<or> cliArgs ! j = ''-c''" for j
    using checkConfFlag_in_bounds [OF assms that] .
  have ret: "\<exists>cliConfig. cliConfParser_forEach cliArgs 0 [] = Inr cliConfig"
    by (rule cliConfParser_forEach_returns) (rule bounds)
  then have "cliConfParser_locator cliArgs \<noteq> Inl TypeError"
    by (auto simp: cliConfParser_locator_def split: if_splits)
  with ret bounds show ?thesis by (simp add: at_def)
qed

theorem cliConfParser_forEach_in_bounds_witness:
  "checkConfFlag [''init'', ''-c'', ''cfg''] = Inr ()
   \<and> at [''init'', ''-c'', ''cfg''] (1 + 1) = Some ''cfg''
   \<and> cliConfParser_locator [''init'', ''-c'', ''cfg''] = Inr ''cfg''"
proof -
  have ok: "checkConfFlag [''init'', ''-c'', ''cfg''] = Inr ()"
    by (simp add: checkConfFlag_def checkConfFlag_loop.simps)
  have "cliConfParser_locator [''init'', ''-c'', ''cfg''] = Inr ''cfg''"
    by (simp add: cliConfParser_locator_def cliConfParser_forEach.simps at_def startsWith_def)
  with ok cliConfParser_forEach_in_bounds [OF ok] show ?thesis
    by (simp add: at_def)
qed

lemma cliConfParser_forEach_step:
  assumes "i < length cliArgs"
    and "cliArgs ! i = ''--config'' \<or> cliArgs ! i = ''-c'' \<Longrightarrow> i + 1 < length cliArgs"
  shows "cliConfParser_forEach cliArgs i c
           = cliConfParser_forEach cliArgs (i + 1)
               (if yieldsLocator cliArgs i then cliArgs ! (i + 1) else c)"
  using assms
  by (subst cliConfParser_forEach.simps) (auto simp: Let_def at_def yieldsLocator_def)

lemma cliConfParser_forEach_unchanged:
  assumes bounds: "\<And>j. j < length cliArgs \<Longrightarrow> cliArgs ! j = ''--config'' \<or> cliArgs ! j = ''-c''
      \<Longrightarrow> j + 1 < length cliArgs"
  shows "(\<And>j. k \<le> j \<Longrightarrow> \<not> yieldsLocator cliArgs j) \<Longrightarrow>
    cliConfParser_forEach cliArgs k c = Inr c"
proof (induction "length cliArgs - k" arbitrary: k)
  case 0
  then show ?case by (subst cliConfParser_forEach.simps) simp
next
  case (Suc n)
  then have k_lt: "k < length cliArgs" by simp
  have "cliConfParser_forEach cliArgs (k + 1) c = Inr c"
    using Suc.hyps(1) [of "k + 1"] Suc.hyps(2) Suc.prems by simp
  then show ?case
    using cliConfParser_forEach_step [OF k_lt bounds [OF k_lt], of c] Suc.prems [of k]
    by simp
qed

lemma cliConfParser_forEach_last:
  assumes bounds: "\<And>j. j < length cliArgs \<Longrightarrow> cliArgs ! j = ''--config'' \<or> cliArgs ! j = ''-c''
      \<Longrightarrow> j + 1 < length cliArgs"
    and yields: "yieldsLocator cliArgs i"
    and last: "\<And>j. i < j \<Longrightarrow> \<not> yieldsLocator cliArgs j"
  shows "k \<le> i \<Longrightarrow> cliConfParser_forEach cliArgs k c = Inr (cliArgs ! (i + 1))"
proof (induction "i - k" arbitrary: k c)
  case 0
  then have "k = i" by simp
  have i_lt: "i < length cliArgs" using yields by (simp add: yieldsLocator_def)
  have "cliConfParser_forEach cliArgs (i + 1) (cliArgs ! (i + 1)) = Inr (cliArgs ! (i + 1))"
    using last by (intro cliConfParser_forEach_unchanged [OF bounds]) (simp_all add: Suc_le_eq)
  then show ?case
    using cliConfParser_forEach_step [OF i_lt bounds [OF i_lt], of c] yields \<open>k = i\<close>
    by simp
next
  case (Suc n)
  then have k_lt: "k < length cliArgs" and k_i: "k + 1 \<le> i"
    using yields by (auto simp: yieldsLocator_def)
  have "cliConfParser_forEach cliArgs (k + 1) c' = Inr (cliArgs ! (i + 1))" for c'
    using Suc.hyps(1) [of "k + 1" c'] Suc.hyps(2) k_i by simp
  then show ?case
    using cliConfParser_forEach_step [OF k_lt bounds [OF k_lt], of c] by simp
qed

text \<open>
  C6, as amended. After a successful presence check the scan records the token that
  follows the last occurrence of \<open>--config\<close>/\<open>-c\<close> whose following token does not start
  with \<open>-\<close>; an occurrence whose following token starts with \<open>-\<close> leaves the locator as it
  was. When no occurrence yields a value the locator stays empty and the extraction fails
  with the "No config file found" error.
\<close>

theorem cliConfParser_locator_last_yielding:
  assumes "checkConfFlag cliArgs = Inr ()"
  shows "(yieldsLocator cliArgs i \<and> (\<forall>j. i < j \<longrightarrow> \<not> yieldsLocator cliArgs j)
            \<longrightarrow> cliConfParser_forEach cliArgs 0 [] = Inr (cliArgs ! (i + 1))
                \<and> cliConfParser_locator cliArgs
                    = (if cliArgs ! (i + 1) = []
                       then Inl (ExitError
                         ''No config file found, please add a config with the --config | -c flag'')
                       else Inr (cliArgs ! (i + 1))))
         \<and> ((\<forall>j. \<not> yieldsLocator cliArgs j)
            \<longrightarrow> cliConfParser_forEach cliArgs 0 [] = Inr []
                \<and> cliConfParser_locator cliArgs = Inl (ExitError
                     ''No config file found, please add a config with the --config | -c flag''))"
proof -
  have bounds: "j + 1 < length cliArgs"
    if "j < length cliArgs" "cliArgs ! j = ''--config'' \<or> cliArgs ! j = ''-c''" for j
    using checkConfFlag_in_bounds [OF assms that] .
  have one: "cliConfParser_forEach cliArgs 0 [] = Inr (cliArgs ! (i + 1))"
    if "yieldsLocator cliArgs i" "\<forall>j. i < j \<longrightarrow> \<not> yieldsLocator cliArgs j"
    using cliConfParser_forEach_last [OF bounds that(1), of 0 "[]"] that(2) by simp
  have none: "cliConfParser_forEach cliArgs 0 [] = Inr []"
    if "\<forall>j. \<not> yieldsLocator cliArgs j"
    using cliConfParser_forEach_unchanged [OF bounds, of 0 "[]"] that by simp
  show ?thesis
    using one none by (auto simp: cliConfParser_locator_def)
qed

theorem cliConfParser_locator_last_yielding_witness:
  "checkConfFlag [''-c'', ''a'', ''-c'', ''-x''] = Inr ()
   \<and> yieldsLocator [''-c'', ''a'', ''-c'', ''-x''] 0
   \<and> \<not> yieldsLocator [''-c'', ''a'', ''-c'', ''-x''] 1
   \<and> \<not> yieldsLocator [''-c'', ''a'', ''-c'', ''-x''] 2
   \<and> cliConfParser_forEach [''-c'', ''a'', ''-c'', ''-x''] 0 [] = Inr ''a''
   \<and> cliConfParser_locator [''-c'', ''a'', ''-c'', ''-x''] = Inr ''a''"
proof -
  have ok: "checkConfFlag [''-c'', ''a'', ''-c'', ''-x''] = Inr ()"
    by (simp add: checkConfFlag_def checkConfFlag_loop.simps)
  have y: "yieldsLocator [''-c'', ''a'', ''-c'', ''-x''] 0"
    by (simp add: yieldsLocator_def startsWith_def)
  have n: "\<forall>j. 0 < j \<longrightarrow> \<not> yieldsLocator [''-c'', ''a'', ''-c'', ''-x''] j"
  proof (intro allI impI)
    fix j :: nat assume "0 < j"
    then consider "j = 1" | "j = 2" | "3 \<le> j" by linarith
    then show "\<not> yieldsLocator [''-c'', ''a'', ''-c'', ''-x''] j"
      by cases (simp_all add: yieldsLocator_def startsWith_def)
  qed
  show ?thesis
    using ok y n cliConfParser_locator_last_yielding [OF ok, of 0] by simp
qed

text \<open>
  C6, as stated, fails: in \<open>-c a -c -x\<close> the last occurrence is at index 2 and the token
  after it is \<open>-x\<close>, yet the locator recorded is \<open>a\<close>, neither \<open>-x\<close> nor empty.
\<close>

theorem cliConfParser_locator_last_occurrence_counterexample:
  "[''-c'', ''a'', ''-c'', ''-x''] ! 2 = ''-c''
   \<and> [''-c'', ''a'', ''-c'', ''-x''] ! 3 = ''-x''
   \<and> checkConfFlag [''-c'', ''a'', ''-c'', ''-x''] = Inr ()
   \<and> cliConfParser_locator [''-c'', ''a'', ''-c'', ''-x''] = Inr ''a''"
  by (simp add: checkConfFlag_def checkConfFlag_loop.simps cliConfParser_locator_def
        cliConfParser_forEach.simps at_def startsWith_def)

section \<open>Properties of flag recognition\<close>

lemma map_of_aliasMapFlag_acc:
  "map_of (foldl (\<lambda>m (flagName, flagConf). AList.update (alias_flag flagConf) flagName m) acc flags) a
     = Some f \<Longrightarrow> f \<in> set (map fst flags) \<or> map_of acc a = Some f"
proof (induction flags arbitrary: acc)
  case Nil
  then show ?case by simp
next
  case (Cons p flags)
  obtain n fc where p: "p = (n, fc)" by (cases p)
  from Cons.prems Cons.IH [of "AList.update (alias_flag fc) n acc"]
  have "f \<in> set (map fst flags) \<or> map_of (AList.update (alias_flag fc) n acc) a = Some f"
    by (simp add: p)
  then show ?case
    by (auto simp: p update_conv' split: if_splits)
qed

lemma map_of_aliasMapFlag:
  "map_of (aliasMapFlag flags) a = Some f \<Longrightarrow> f \<in> fst ` set flags"
  using map_of_aliasMapFlag_acc [of "[]" flags a f] by (simp add: aliasMapFlag_def)



lemma hasFlag_declared:
  "hasFlag arg commandConf = Inr flag \<Longrightarrow> flag \<noteq> [] \<Longrightarrow>
   flag \<in> set (map fst (flags_cmd commandConf))"
  unfolding hasFlag_def Let_def
  by (simp split: if_splits sum.splits)

lemma hasAliasFlag_declared:
  "hasAliasFlag arg commandConf cmd = Inr flag \<Longrightarrow> flag \<noteq> [] \<Longrightarrow>
   flag \<in> set (map fst (flags_cmd commandConf))"
  unfolding hasAliasFlag_def Let_def
  by (simp split: if_splits sum.splits option.splits add: map_of_aliasMapFlag)

lemma flagOfArg_declared:
  assumes "flagOfArg arg commandConf cmd = Inr flag" and "flag \<noteq> []"
  shows "flag \<in> set (map fst (flags_cmd commandConf))"
proof (cases "hasFlag arg commandConf")
  case (Inl e)
  then show ?thesis using assms by (simp add: flagOfArg_def)
next
  case (Inr f)
  show ?thesis
  proof (cases "f = []")
    case True
    then have "hasAliasFlag arg commandConf cmd = Inr flag"
      using assms(1) Inr by (simp add: flagOfArg_def)
    then show ?thesis using assms(2) by (rule hasAliasFlag_declared)
  next
    case False
    then have "f = flag" using assms(1) Inr by (simp add: flagOfArg_def)
    then show ?thesis using Inr False hasFlag_declared by blast
  qed
qed

lemma declared_flag_has_conf:
  "flag \<in> set (map fst flags) \<Longrightarrow> \<exists>flagConf. map_of flags flag = Some flagConf"
  by (cases "map_of flags flag") (auto simp: map_of_eq_None_iff)

lemma inputParser_loop_flag_unfold:
  assumes "i < length cliArgs"
    and "cliArgs ! i \<noteq> ''--version''" and "cliArgs ! i \<noteq> ''-v''"
    and "flagOfArg (cliArgs ! i) commandConf cmd = Inr flag" and "flag \<noteq> []"
    and "map_of (flags_cmd commandConf) flag = Some flagConf"
  shows "inputParser_loop Number cliConf cmd commandConf cliArgs i result
      = (case checkFlag i flag commandConf cliArgs cmd of
           Inl e \<Rightarrow> Inl e
         | Inr u \<Rightarrow>
             inputParser_loop Number cliConf cmd commandConf cliArgs
               (snd (parseFlag Number flagConf cliArgs i) + 1)
               (setFlag flag (fst (parseFlag Number flagConf cliArgs i)) result))"
  using assms by (subst inputParser_loop.simps) (simp add: Let_def split: sum.splits)

lemma checkFlag_declared:
  assumes "flag \<in> set (map fst (flags_cmd commandConf))" and "flag \<noteq> []"
    and "map_of (flags_cmd commandConf) flag = Some flagConf"
  shows "checkFlag i flag commandConf cliArgs cmd
      = (if (type_flag flagConf = TString \<or> type_flag flagConf = TNumber)
            \<and> length cliArgs = i + 1
         then Inl (ExitError (''The flag --'' @ flag @ '' must have a value in command: '' @ cmd))
         else Inr ())"
  using assms by (simp add: checkFlag_def)

text \<open>
  One step of the scan at a recognised flag. At a token that is not a version flag and
  that \<open>hasFlag(..) || hasAliasFlag(..)\<close> resolves to a non-empty flag name other than
  \<open>__proto__\<close>, the flag is declared for the command and: when its type is \<open>string\<close> the
  next token is stored under the flag's name and passed over; when its type is \<open>number\<close>
  the next token is stored after the conversion \<open>Number\<close>, whatever the text is, and no
  error is raised; when its type is \<open>string\<close> or \<open>number\<close> and there is no next token
  the parse fails with "The flag --<flag> must have a value in command: <command>"; when
  its type is \<open>boolean\<close> the value \<open>true\<close> is stored and the scan goes on at the next
  token. In each case the other flags of the result are left as they are.
\<close>

theorem inputParser_loop_recognized_flag:
  assumes "i < length cliArgs"
    and "cliArgs ! i \<noteq> ''--version''" and "cliArgs ! i \<noteq> ''-v''"
    and "flagOfArg (cliArgs ! i) commandConf cmd = Inr flag" and "flag \<noteq> []"
    and "flag \<noteq> ''__proto__''" and "command result = Some c"
  shows "\<exists>flagConf. map_of (flags_cmd commandConf) flag = Some flagConf
     \<and> (type_flag flagConf = TString \<and> i + 1 < length cliArgs \<longrightarrow>
          inputParser_loop Number cliConf cmd commandConf cliArgs i result
            = inputParser_loop Number cliConf cmd commandConf cliArgs (i + 2)
                (result\<lparr>command :=
                   Some (c\<lparr>cmd_flags := (cmd_flags c)(flag \<mapsto> VString (cliArgs ! (i + 1)))\<rparr>)\<rparr>))
     \<and> (type_flag flagConf = TNumber \<and> i + 1 < length cliArgs \<longrightarrow>
          inputParser_loop Number cliConf cmd commandConf cliArgs i result
            = inputParser_loop Number cliConf cmd commandConf cliArgs (i + 2)
                (result\<lparr>command :=
                   Some (c\<lparr>cmd_flags :=
                     (cmd_flags c)(flag \<mapsto> VNumber (Number (Some (cliArgs ! (i + 1)))))\<rparr>)\<rparr>))
     \<and> (type_flag flagConf \<noteq> TBoolean \<and> i + 1 = length cliArgs \<longrightarrow>
          inputParser_loop Number cliConf cmd commandConf cliArgs i result
            = Inl (ExitError (''The flag --'' @ flag @ '' must have a value in command: '' @ cmd)))
     \<and> (type_flag flagConf = TBoolean \<longrightarrow>
          inputParser_loop Number cliConf cmd commandConf cliArgs i result
            = inputParser_loop Number cliConf cmd commandConf cliArgs (i + 1)
                (result\<lparr>command :=
                   Some (c\<lparr>cmd_flags := (cmd_flags c)(flag \<mapsto> VBoolean True)\<rparr>)\<rparr>))"
proof -
  have declared: "flag \<in> set (map fst (flags_cmd commandConf))"
    using assms(4,5) by (rule flagOfArg_declared)
  from declared_flag_has_conf [OF declared]
  obtain flagConf where conf: "map_of (flags_cmd commandConf) flag = Some flagConf" ..
  note unfold = inputParser_loop_flag_unfold [OF assms(1-5) conf, of Number cliConf result]
  note check = checkFlag_declared [OF declared assms(5) conf, of i cliArgs cmd]
  have store: "setFlag flag v result
                 = result\<lparr>command := Some (c\<lparr>cmd_flags := (cmd_flags c)(flag \<mapsto> v)\<rparr>)\<rparr>" for v
    using assms(6,7) by (simp add: setFlag_def)
  have str: "type_flag flagConf = TString \<Longrightarrow> i + 1 < length cliArgs \<Longrightarrow>
          inputParser_loop Number cliConf cmd commandConf cliArgs i result
            = inputParser_loop Number cliConf cmd commandConf cliArgs (i + 2)
                (result\<lparr>command :=
                   Some (c\<lparr>cmd_flags := (cmd_flags c)(flag \<mapsto> VString (cliArgs ! (i + 1)))\<rparr>)\<rparr>)"
    unfolding unfold check store by (simp add: parseFlag_def at_def)
  have num: "type_flag flagConf = TNumber \<Longrightarrow> i + 1 < length cliArgs \<Longrightarrow>
          inputParser_loop Number cliConf cmd commandConf cliArgs i result
            = inputParser_loop Number cliConf cmd commandConf cliArgs (i + 2)
                (result\<lparr>command :=
                   Some (c\<lparr>cmd_flags :=
                     (cmd_flags c)(flag \<mapsto> VNumber (Number (Some (cliArgs ! (i + 1)))))\<rparr>)\<rparr>)"
    unfolding unfold check store by (simp add: parseFlag_def at_def)
  have missing: "type_flag flagConf \<noteq> TBoolean \<Longrightarrow> i + 1 = length cliArgs \<Longrightarrow>
          inputParser_loop Number cliConf cmd commandConf cliArgs i result
            = Inl (ExitError (''The flag --'' @ flag @ '' must have a value in command: '' @ cmd))"
    unfolding unfold check by (cases "type_flag flagConf") simp_all
  have bool: "type_flag flagConf = TBoolean \<Longrightarrow>
          inputParser_loop Number cliConf cmd commandConf cliArgs i result
            = inputParser_loop Number cliConf cmd commandConf cliArgs (i + 1)
                (result\<lparr>command :=
                   Some (c\<lparr>cmd_flags := (cmd_flags c)(flag \<mapsto> VBoolean True)\<rparr>)\<rparr>)"
    unfolding unfold check store by (simp add: parseFlag_def)
  show ?thesis
    using conf str num missing bool by blast
qed

lemmas eval_defs =
  inputParser_def isVersion_def isArgsIncludeHelpFlag_def removeHelpFlag_def checkCommand_def
  inputParser_loop.simps flagOfArg_def hasFlag_def hasAliasFlag_def aliasMapFlag_def
  checkFlagNotEempty_def checkFlag_def parseFlag_def setFlag_def pushArg_def startsWith_def
  at_def Let_def

theorem inputParser_loop_recognized_flag_witness:
  "flagOfArg ([''--force'', ''positional''] ! 0) (initConf :: int CommandType) ''init''
     = Inr ''force''
   \<and> inputParser_loop (\<lambda>v. 0::int) appConf ''init'' initConf [''--force'', ''positional''] 0
        \<lparr>success = True, action = Command, output_str = [],
         command = Some \<lparr>cmd_name = ''init'', cmd_args = [], cmd_flags = Map.empty\<rparr>\<rparr>
     = Inr \<lparr>success = True, action = Command, output_str = [],
             command = Some \<lparr>cmd_name = ''init'', cmd_args = [''positional''],
                             cmd_flags = [''force'' \<mapsto> VBoolean True]\<rparr>\<rparr>"
proof -
  let ?c = "\<lparr>cmd_name = ''init'', cmd_args = [], cmd_flags = Map.empty\<rparr> :: int CommandResult"
  let ?r = "\<lparr>success = True, action = Command, output_str = [], command = Some ?c\<rparr>"
  have resolved: "flagOfArg ([''--force'', ''positional''] ! 0) (initConf :: int CommandType) ''init''
                    = Inr ''force''"
    by (simp add: initConf_def eval_defs)
  have rest: "inputParser_loop (\<lambda>v. 0::int) appConf ''init'' initConf
                [''--force'', ''positional''] (0 + 1)
                (?r\<lparr>command := Some (?c\<lparr>cmd_flags := (cmd_flags ?c)(''force'' \<mapsto> VBoolean True)\<rparr>)\<rparr>)
     = Inr \<lparr>success = True, action = Command, output_str = [],
             command = Some \<lparr>cmd_name = ''init'', cmd_args = [''positional''],
                             cmd_flags = [''force'' \<mapsto> VBoolean True]\<rparr>\<rparr>"
    by (simp add: initConf_def eval_defs)
  have conf: "map_of (flags_cmd (initConf :: int CommandType)) ''force''
     = Some \<lparr>type_flag = TBoolean, default_flag = VBoolean False,
              description_flag = ''f'', alias_flag = ''f''\<rparr>"
    by (simp add: initConf_def)
  from inputParser_loop_recognized_flag
         [of 0 "[''--force'', ''positional'']" "initConf :: int CommandType" "''init''" "''force''"
             ?r ?c "\<lambda>v. 0::int" appConf,
          OF _ _ _ resolved]
  have "inputParser_loop (\<lambda>v. 0::int) appConf ''init'' initConf [''--force'', ''positional''] 0 ?r
        = inputParser_loop (\<lambda>v. 0::int) appConf ''init'' initConf
            [''--force'', ''positional''] (0 + 1)
            (?r\<lparr>command := Some (?c\<lparr>cmd_flags := (cmd_flags ?c)(''force'' \<mapsto> VBoolean True)\<rparr>)\<rparr>)"
    by (simp add: conf)
  with resolved rest show ?thesis by simp
qed

section \<open>Properties of the parse result\<close>

lemma inputParser_loop_invariant:
  assumes "inputParser_loop Number cliConf cmd commandConf cliArgs i result = Inr result'"
    and "Q result"
    and flag_step: "\<And>r j flag v. Q r \<Longrightarrow> j < length cliArgs \<Longrightarrow>
          flagOfArg (cliArgs ! j) commandConf cmd = Inr flag \<Longrightarrow> flag \<noteq> [] \<Longrightarrow>
          Q (setFlag flag v r)"
    and arg_step: "\<And>r j. Q r \<Longrightarrow> j < length cliArgs \<Longrightarrow>
          flagOfArg (cliArgs ! j) commandConf cmd = Inr [] \<Longrightarrow> Q (pushArg (cliArgs ! j) r)"
    and version_step: "\<And>r. Q r \<Longrightarrow>
          Q (r\<lparr>action := Version, output_str := name cliConf @ ''@'' @ version cliConf\<rparr>)"
  shows "Q result'"
  using assms
proof (induction Number cliConf cmd commandConf cliArgs i result
        rule: inputParser_loop.induct)
  case (1 Number cliConf cmd commandConf cliArgs i result)
  note run = "1.prems"(1) and inv = "1.prems"(2)
  show ?case
  proof (cases "i < length cliArgs")
    case False
    then have "result' = result"
      using run by (subst (asm) inputParser_loop.simps) simp
    then show ?thesis using inv by simp
  next
    case in_range: True
    show ?thesis
    proof (cases "cliArgs ! i = ''--version'' \<or> cliArgs ! i = ''-v''")
      case True
      then have "result' = result\<lparr>action := Version,
                   output_str := name cliConf @ ''@'' @ version cliConf\<rparr>"
        using run in_range by (subst (asm) inputParser_loop.simps) (auto simp: Let_def)
      then show ?thesis using "1.prems"(5) [OF inv] by simp
    next
      case no_version: False
      show ?thesis
      proof (cases "flagOfArg (cliArgs ! i) commandConf cmd")
        case (Inl e)
        then show ?thesis
          using run in_range no_version
          by (subst (asm) inputParser_loop.simps) (simp add: Let_def)
      next
        case (Inr flag)
        show ?thesis
        proof (cases "flag = []")
          case True
          then have next_run: "inputParser_loop Number cliConf cmd commandConf cliArgs (i + 1)
                       (pushArg (cliArgs ! i) result) = Inr result'"
            using run in_range no_version Inr
            by (subst (asm) inputParser_loop.simps) (simp add: Let_def)
          have "Q (pushArg (cliArgs ! i) result)"
            using "1.prems"(4) [OF inv in_range] Inr True by simp
          then show ?thesis
            using "1.IH"(2) [OF in_range refl _ Inr _ next_run] no_version True "1.prems"(3,4,5)
            by blast
        next
          case False
          then obtain u flagConf where
              chk: "checkFlag i flag commandConf cliArgs cmd = Inr u" and
              conf: "map_of (flags_cmd commandConf) flag = Some flagConf" and
              next_run: "inputParser_loop Number cliConf cmd commandConf cliArgs
                       (snd (parseFlag Number flagConf cliArgs i) + 1)
                       (setFlag flag (fst (parseFlag Number flagConf cliArgs i)) result)
                     = Inr result'"
            using run in_range no_version Inr
            by (subst (asm) inputParser_loop.simps)
               (auto simp: Let_def split: sum.splits option.splits)
          have "Q (setFlag flag (fst (parseFlag Number flagConf cliArgs i)) result)"
            using "1.prems"(3) [OF inv in_range Inr False] .
          then show ?thesis
            using "1.IH"(1) [OF in_range refl _ Inr False chk conf next_run] no_version
              "1.prems"(3,4,5)
            by blast
        qed
      qed
    qed
  qed
qed

lemma set_removeHelpFlag_loop: "set (removeHelpFlag_loop xs b) \<subseteq> set xs"
proof (induction xs b rule: removeHelpFlag_loop.induct)
  case (1 isRemove)
  then show ?case by simp
next
  case (2 arg rest isRemove)
  have "set (drop 1 rest) \<subseteq> set rest" by (rule set_drop_subset)
  with 2 show ?case by auto
qed

lemma isVersion_loop_Inr:
  "isVersion_loop xs = Inr b \<Longrightarrow> ''--version'' \<notin> set xs \<and> ''-v'' \<notin> set xs"
  by (induction xs) (auto split: if_splits)

lemma isVersion_False:
  assumes "isVersion xs = Inr False"
  shows "''--version'' \<notin> set xs \<and> ''-v'' \<notin> set xs"
proof (cases xs)
  case Nil
  then show ?thesis by simp
next
  case (Cons a rest)
  then have "isVersion_loop xs = Inr False"
    using assms by (simp add: isVersion_def split: if_splits)
  then show ?thesis by (rule isVersion_loop_Inr)
qed

lemma isArgsIncludeHelpFlag_loop_Inr:
  "isArgsIncludeHelpFlag_loop xs b0 = Inr b \<Longrightarrow>
   b = (b0 \<or> ''--help'' \<in> set xs \<or> ''-h'' \<in> set xs)"
  by (induction xs b0 rule: isArgsIncludeHelpFlag_loop.induct) (auto split: if_splits)

lemma isArgsIncludeHelpFlag_Inr:
  "isArgsIncludeHelpFlag xs = Inr b \<Longrightarrow> b = (''--help'' \<in> set xs \<or> ''-h'' \<in> set xs)"
  using isArgsIncludeHelpFlag_loop_Inr [of xs False b] by (simp add: isArgsIncludeHelpFlag_def)

lemma inputParser_Inr_cases:
  assumes "inputParser Number inputCliArgs cliConf = Inr result"
  obtains
    (version) "result = \<lparr>success = True, action = Version,
                 output_str = name cliConf @ ''@'' @ version cliConf, command = None\<rparr>"
  | (global_help) "result = \<lparr>success = False, action = Help, output_str = helpDoc cliConf,
                     command = None\<rparr>"
  | (resolved) isHelpe cmd rest commandConf where
      "set (cmd # rest) \<subseteq> set inputCliArgs"
      "cmd \<in> set (map fst (commands cliConf))"
      "map_of (commands cliConf) cmd = Some commandConf"
      "inputParser_loop Number cliConf cmd commandConf rest 0
         \<lparr>success = True, action = (if isHelpe then Help else Command), output_str = [],
          command = Some \<lparr>cmd_name = cmd, cmd_args = [], cmd_flags = Map.empty\<rparr>\<rparr> = Inr result"
      "rest = scannedTokens inputCliArgs"
      "''--version'' \<notin> set inputCliArgs" "''-v'' \<notin> set inputCliArgs"
proof -
  from assms obtain isV where isV: "isVersion inputCliArgs = Inr isV"
    by (cases "isVersion inputCliArgs") (auto simp: inputParser_def)
  show thesis
  proof (cases isV)
    case True
    then show thesis using assms isV version by (simp add: inputParser_def)
  next
    case False
    have nov: "''--version'' \<notin> set inputCliArgs \<and> ''-v'' \<notin> set inputCliArgs"
      using isV False by (intro isVersion_False) simp
    from assms isV False obtain isHelpe where
      isH: "isArgsIncludeHelpFlag inputCliArgs = Inr isHelpe"
      by (cases "isArgsIncludeHelpFlag inputCliArgs") (auto simp: inputParser_def)
    define args where "args = (if isHelpe then removeHelpFlag inputCliArgs else inputCliArgs)"
    have scanned: "scannedTokens inputCliArgs = drop 1 args"
      unfolding scannedTokens_def args_def isArgsIncludeHelpFlag_Inr [OF isH] by (rule refl)
    have sub: "set args \<subseteq> set inputCliArgs"
      using set_removeHelpFlag_loop [of inputCliArgs False]
      by (auto simp: args_def removeHelpFlag_def)
    have unfolded: "inputParser Number inputCliArgs cliConf =
              (if length args = 0 then
                 Inr \<lparr>success = False, action = Help, output_str = helpDoc cliConf,
                      command = None\<rparr>
               else
                 (case checkCommand (args ! 0) cliConf of
                    Inl e \<Rightarrow> Inl e
                  | Inr u \<Rightarrow>
                      (case map_of (commands cliConf) (args ! 0) of
                         None \<Rightarrow> Inl TypeError
                       | Some commandConf \<Rightarrow>
                           inputParser_loop Number cliConf (args ! 0) commandConf (drop 1 args) 0
                             \<lparr>success = True, action = (if isHelpe then Help else Command),
                              output_str = [],
                              command = Some \<lparr>cmd_name = args ! 0, cmd_args = [],
                                              cmd_flags = Map.empty\<rparr>\<rparr>)))"
      unfolding inputParser_def Let_def args_def using isV False isH by simp
    show thesis
    proof (cases args)
      case Nil
      then show thesis using assms unfolded global_help by simp
    next
      case (Cons cmd rest)
      have declared: "cmd \<in> set (map fst (commands cliConf))"
        using assms Cons by (cases "cmd \<in> set (map fst (commands cliConf))")
          (simp_all add: unfolded checkCommand_def)
      then have chk: "checkCommand cmd cliConf = Inr ()"
        by (simp add: checkCommand_def)
      from declared_flag_has_conf [OF declared]
      obtain commandConf where conf: "map_of (commands cliConf) cmd = Some commandConf" ..
      have "inputParser_loop Number cliConf cmd commandConf rest 0
              \<lparr>success = True, action = (if isHelpe then Help else Command), output_str = [],
               command = Some \<lparr>cmd_name = cmd, cmd_args = [], cmd_flags = Map.empty\<rparr>\<rparr> = Inr result"
        using assms Cons by (simp add: unfolded chk conf)
      moreover have "rest = scannedTokens inputCliArgs"
        using scanned Cons by simp
      ultimately show thesis
        using resolved [of cmd rest commandConf isHelpe] sub Cons declared conf nov by simp
    qed
  qed
qed

lemmas validate_defs =
  cliConfParser_check_def cliConfParser_command_def cliConfParser_flag_def
  cliConfParser_arg_def allowedTypes_def asCliConfType_def asCommandType_def asFlagConfig_def
  asFlagType_def entriesOrEmpty_def

lemmas main_defs =
  main_def checkConfFlag_def checkConfFlag_loop.simps cliConfParser_def
  cliConfParser_locator_def cliConfParser_forEach.simps removeConfFlag_def

lemma appJson_valid: "cliConfParser_check (appJson :: 'n json) = Inr ()"
  by (simp add: appJson_def validate_defs)

lemma appJson_conf: "asCliConfType (appJson :: 'n json) = appConf"
  by (simp add: appJson_def appConf_def initConf_def validate_defs)

lemma inputParser_success:
  assumes "inputParser Number inputCliArgs cliConf = Inr result"
  shows "success result = (\<not> (action result = Help \<and> command result = None))"
  using assms
proof (cases rule: inputParser_Inr_cases)
  case version
  then show ?thesis by simp
next
  case global_help
  then show ?thesis by simp
next
  case (resolved isHelpe cmd rest commandConf)
  have "success result \<and> command result \<noteq> None"
    by (rule inputParser_loop_invariant [OF resolved(4),
          where Q = "\<lambda>r. success r \<and> command r \<noteq> None"])
       (simp_all add: setFlag_def pushArg_def)
  then show ?thesis by simp
qed

text \<open>
  C1, as amended. A run that prints a result exits with status 0 when the result is the
  version, a resolved command or the help of a command, and with status 1 (\<open>success\<close>
  false) when it is the global help of an empty argument list. Status 1 occurs exactly on
  a validation or parsing error and on that global help.
\<close>

theorem main_exit_status:
  "(main parse Number scriptArgs = Inr result \<longrightarrow>
      (action result = Help \<and> command result = None \<longrightarrow>
         \<not> success result \<and> exit_status (main parse Number scriptArgs) = Some 1)
      \<and> (action result = Version \<or> action result = Command \<or> command result \<noteq> None \<longrightarrow>
         success result \<and> exit_status (main parse Number scriptArgs) = Some 0))
   \<and> (exit_status (main parse Number scriptArgs) = Some 1 \<longleftrightarrow>
        (\<exists>message. main parse Number scriptArgs = Inl (ExitError message))
        \<or> (\<exists>r. main parse Number scriptArgs = Inr r \<and> action r = Help \<and> command r = None))"
proof -
  have shape: "success r = (\<not> (action r = Help \<and> command r = None))"
    if "main parse Number scriptArgs = Inr r" for r
  proof -
    from that obtain cliConf r0 where
      parsed: "inputParser Number (removeConfFlag (drop 1 scriptArgs)) cliConf = Inr r0" and
      r: "r = r0 \<or> (\<exists>doc. r = r0\<lparr>output_str := doc\<rparr>)"
      by (auto simp: main_def Let_def split: sum.splits if_splits)
    from inputParser_success [OF parsed] r show ?thesis by auto
  qed
  have ok: "exit_status (Inr r :: error + 'a InputActionType)
              = Some (if action r = Help \<and> command r = None then 1 else 0)"
    if "main parse Number scriptArgs = Inr r" for r
    using shape [OF that] by simp
  have first: "main parse Number scriptArgs = Inr result \<longrightarrow>
      (action result = Help \<and> command result = None \<longrightarrow>
         \<not> success result \<and> exit_status (main parse Number scriptArgs) = Some 1)
      \<and> (action result = Version \<or> action result = Command \<or> command result \<noteq> None \<longrightarrow>
         success result \<and> exit_status (main parse Number scriptArgs) = Some 0)"
    using shape [of result] ok [of result] by auto
  have second: "exit_status (main parse Number scriptArgs) = Some 1 \<longleftrightarrow>
        (\<exists>message. main parse Number scriptArgs = Inl (ExitError message))
        \<or> (\<exists>r. main parse Number scriptArgs = Inr r \<and> action r = Help \<and> command r = None)"
  proof (cases "main parse Number scriptArgs")
    case (Inl e)
    then show ?thesis by (cases e) simp_all
  next
    case (Inr r)
    then show ?thesis using ok [OF Inr] by simp
  qed
  from first second show ?thesis by blast
qed

theorem main_exit_status_witness:
  "main (\<lambda>s. Some appJson) (\<lambda>v. 0::int) [''zmod'', ''-c'', ''cfg'', ''init'', ''--help'']
     = Inr \<lparr>success = True, action = Help,
             output_str = ''Usage: '' @ [CHR 0x0A] @ ''  app init '' @ [CHR 0x0A, CHR 0x0A]
               @ ''  x.'' @ [CHR 0x0A] @ ''Options:'' @ [CHR 0x0A, CHR 0x09] @ ''--force''
               @ [CHR 0x09, CHR 0x09] @ ''f'' @ [CHR 0x0A, CHR 0x09] @ ''--label''
               @ [CHR 0x09, CHR 0x09] @ ''l'' @ [CHR 0x0A, CHR 0x0A],
             command = Some \<lparr>cmd_name = ''init'', cmd_args = [], cmd_flags = Map.empty\<rparr>\<rparr>
   \<and> exit_status
        (main (\<lambda>s. Some appJson) (\<lambda>v. 0::int) [''zmod'', ''-c'', ''cfg'', ''init'', ''--help''])
       = Some 0"
proof -
  have run: "main (\<lambda>s. Some appJson) (\<lambda>v. 0::int) [''zmod'', ''-c'', ''cfg'', ''init'', ''--help'']
     = Inr \<lparr>success = True, action = Help,
             output_str = ''Usage: '' @ [CHR 0x0A] @ ''  app init '' @ [CHR 0x0A, CHR 0x0A]
               @ ''  x.'' @ [CHR 0x0A] @ ''Options:'' @ [CHR 0x0A, CHR 0x09] @ ''--force''
               @ [CHR 0x09, CHR 0x09] @ ''f'' @ [CHR 0x0A, CHR 0x09] @ ''--label''
               @ [CHR 0x09, CHR 0x09] @ ''l'' @ [CHR 0x0A, CHR 0x0A],
             command = Some \<lparr>cmd_name = ''init'', cmd_args = [], cmd_flags = Map.empty\<rparr>\<rparr>"
    by (simp add: main_defs appJson_valid appJson_conf eval_defs commandHelpDoc_def
          appConf_def initConf_def)
  show ?thesis
    using main_exit_status [of "\<lambda>s. Some appJson" "\<lambda>v. 0::int"
        "[''zmod'', ''-c'', ''cfg'', ''init'', ''--help'']", unfolded run]
    by (simp add: run)
qed

text \<open>
  C1, as stated, fails: with no argument but the configuration, and also with \<open>--help\<close>
  alone, the outcome is the global help and the process exits with status 1.
\<close>

theorem main_global_help_counterexample:
  "main (\<lambda>s. Some appJson) (\<lambda>v. 0::int) [''zmod'', ''-c'', ''cfg'']
     = Inr \<lparr>success = False, action = Help, output_str = helpDoc (appConf :: int CliConfType),
             command = None\<rparr>
   \<and> exit_status (main (\<lambda>s. Some appJson) (\<lambda>v. 0::int) [''zmod'', ''-c'', ''cfg'']) = Some 1
   \<and> exit_status (main (\<lambda>s. Some appJson) (\<lambda>v. 0::int) [''zmod'', ''-c'', ''cfg'', ''--help''])
       = Some 1"
  by (simp add: main_defs appJson_valid appJson_conf eval_defs)

section \<open>The declared defaults and the flags of the result\<close>

















lemma removeHelp_subset:
  "set (if b then removeHelpFlag xs else xs) \<subseteq> set xs"
  using set_removeHelpFlag_loop [of xs False] by (simp add: removeHelpFlag_def)

lemma inputParser_flag_keys:
  assumes "inputParser Number inputCliArgs cliConf = Inr result"
    and "command result = Some c" and "flag \<in> dom (cmd_flags c)"
  shows "\<exists>commandConf tok. map_of (commands cliConf) (cmd_name c) = Some commandConf
           \<and> tok \<in> set inputCliArgs \<and> flagOfArg tok commandConf (cmd_name c) = Inr flag
           \<and> flag \<noteq> []"
  using assms(1)
proof (cases rule: inputParser_Inr_cases)
  case version
  then show ?thesis using assms(2) by simp
next
  case global_help
  then show ?thesis using assms(2) by simp
next
  case (resolved isHelpe cmd rest commandConf)
  define S where "S = {f. f \<noteq> [] \<and> (\<exists>tok \<in> set rest. flagOfArg tok commandConf cmd = Inr f)}"
  define Q where "Q = (\<lambda>r :: 'a InputActionType. \<exists>c'. command r = Some c' \<and> cmd_name c' = cmd
      \<and> dom (cmd_flags c') \<subseteq> S)"
  have "Q result"
  proof (rule inputParser_loop_invariant [OF resolved(4), where Q = Q])
    show "Q \<lparr>success = True, action = if isHelpe then Help else Command, output_str = [],
             command = Some \<lparr>cmd_name = cmd, cmd_args = [], cmd_flags = Map.empty\<rparr>\<rparr>"
      by (simp add: Q_def)
  next
    fix r j f v
    assume "Q r" and j: "j < length rest" "flagOfArg (rest ! j) commandConf cmd = Inr f"
      and "f \<noteq> []"
    then have "f \<in> S" using nth_mem [OF j(1)] unfolding S_def by blast
    with \<open>Q r\<close> show "Q (setFlag f v r)"
      by (cases "f = ''__proto__''") (auto simp: Q_def setFlag_def)
  next
    fix r j
    assume "Q r"
    then show "Q (pushArg (rest ! j) r)"
      by (auto simp: Q_def pushArg_def)
  next
    fix r
    assume "Q r"
    then show "Q (r\<lparr>action := Version, output_str := name cliConf @ ''@'' @ version cliConf\<rparr>)"
      by (auto simp: Q_def)
  qed
  then obtain tok where "cmd_name c = cmd" "tok \<in> set rest"
    "flagOfArg tok commandConf cmd = Inr flag" "flag \<noteq> []"
    using assms(2,3) by (auto simp: Q_def S_def)
  then show ?thesis
    using resolved(1,3) by auto
qed

lemma recognisedAt_from:
  "(\<exists>j\<ge>i. recognisedAt commandConf cmd cliArgs j flag)
     \<longleftrightarrow> recognisedAt commandConf cmd cliArgs i flag
          \<or> (\<exists>j\<ge>Suc i. recognisedAt commandConf cmd cliArgs j flag)"
proof
  assume "\<exists>j\<ge>i. recognisedAt commandConf cmd cliArgs j flag"
  then obtain j where j: "i \<le> j" "recognisedAt commandConf cmd cliArgs j flag" by blast
  show "recognisedAt commandConf cmd cliArgs i flag
          \<or> (\<exists>j\<ge>Suc i. recognisedAt commandConf cmd cliArgs j flag)"
  proof (cases "j = i")
    case True
    then show ?thesis using j by simp
  next
    case False
    then have "Suc i \<le> j" using j(1) by simp
    then show ?thesis using j(2) by blast
  qed
next
  assume "recognisedAt commandConf cmd cliArgs i flag
          \<or> (\<exists>j\<ge>Suc i. recognisedAt commandConf cmd cliArgs j flag)"
  then show "\<exists>j\<ge>i. recognisedAt commandConf cmd cliArgs j flag"
  proof
    assume "recognisedAt commandConf cmd cliArgs i flag"
    then show ?thesis by (intro exI [of _ i]) simp
  next
    assume "\<exists>j\<ge>Suc i. recognisedAt commandConf cmd cliArgs j flag"
    then obtain j where "Suc i \<le> j" "recognisedAt commandConf cmd cliArgs j flag" by blast
    then show ?thesis by (intro exI [of _ j]) simp
  qed
qed

lemma recognisedAt_past_end:
  "length cliArgs \<le> i \<Longrightarrow> \<not> (\<exists>j\<ge>i. recognisedAt commandConf cmd cliArgs j flag)"
  by (simp add: recognisedAt_def)

lemma dom_setFlag:
  assumes "command result = Some c" and "flag \<noteq> ''__proto__''"
  shows "\<exists>c1. command (setFlag f v result) = Some c1 \<and> cmd_name c1 = cmd_name c
           \<and> (flag \<in> dom (cmd_flags c1) \<longleftrightarrow> flag \<in> dom (cmd_flags c) \<or> flag = f)"
  using assms by (cases "f = ''__proto__''") (auto simp: setFlag_def)

lemma dom_pushArg:
  assumes "command result = Some c"
  shows "\<exists>c1. command (pushArg a result) = Some c1 \<and> cmd_name c1 = cmd_name c
           \<and> cmd_flags c1 = cmd_flags c"
  using assms by (simp add: pushArg_def)

lemma inputParser_loop_flag_dom:
  assumes "inputParser_loop Number cliConf cmd commandConf cliArgs i result = Inr result'"
    and "''--version'' \<notin> set cliArgs" and "''-v'' \<notin> set cliArgs"
    and "\<not> consumed commandConf cmd cliArgs i"
    and "command result = Some c"
    and "flag \<noteq> ''__proto__''"
  shows "\<exists>c'. command result' = Some c' \<and> cmd_name c' = cmd_name c
           \<and> (flag \<in> dom (cmd_flags c')
                \<longleftrightarrow> flag \<in> dom (cmd_flags c)
                     \<or> (\<exists>j\<ge>i. recognisedAt commandConf cmd cliArgs j flag))"
  using assms
proof (induction Number cliConf cmd commandConf cliArgs i result arbitrary: c
        rule: inputParser_loop.induct)
  case (1 Number cliConf cmd commandConf cliArgs i result)
  note run = "1.prems"(1) and nov = "1.prems"(2,3) and scanned = "1.prems"(4)
    and cmdr = "1.prems"(5) and np = "1.prems"(6)
  show ?case
  proof (cases "i < length cliArgs")
    case False
    then have "result' = result"
      using run by (subst (asm) inputParser_loop.simps) simp
    moreover have "\<not> (\<exists>j\<ge>i. recognisedAt commandConf cmd cliArgs j flag)"
      using False by (intro recognisedAt_past_end) simp
    ultimately show ?thesis using cmdr by blast
  next
    case in_range: True
    have no_version: "\<not> (cliArgs ! i = ''--version'' \<or> cliArgs ! i = ''-v'')"
      using nov nth_mem [OF in_range] by metis
    show ?thesis
    proof (cases "flagOfArg (cliArgs ! i) commandConf cmd")
      case (Inl e)
      then show ?thesis
        using run in_range no_version
        by (subst (asm) inputParser_loop.simps) (simp add: Let_def)
    next
      case (Inr f)
      show ?thesis
      proof (cases "f = []")
        case True
        then have next_run: "inputParser_loop Number cliConf cmd commandConf cliArgs (i + 1)
                     (pushArg (cliArgs ! i) result) = Inr result'"
          using run in_range no_version Inr
          by (subst (asm) inputParser_loop.simps) (simp add: Let_def)
        have plain: "\<not> takesValue commandConf cmd (cliArgs ! i)"
          using Inr True by (simp add: takesValue_def)
        then have sc: "\<not> consumed commandConf cmd cliArgs (i + 1)" by simp
        from dom_pushArg [OF cmdr, of "cliArgs ! i"]
        obtain c1 where c1: "command (pushArg (cliArgs ! i) result) = Some c1"
          "cmd_name c1 = cmd_name c" "cmd_flags c1 = cmd_flags c" by blast
        have empty: "\<not> f \<noteq> []" using True by simp
        from "1.IH"(2) [OF in_range refl no_version Inr empty next_run nov sc c1(1) np]
        obtain c' where c': "command result' = Some c'" "cmd_name c' = cmd_name c1"
          "flag \<in> dom (cmd_flags c')
             \<longleftrightarrow> flag \<in> dom (cmd_flags c1)
                  \<or> (\<exists>j\<ge>i + 1. recognisedAt commandConf cmd cliArgs j flag)"
          by blast
        have here: "\<not> recognisedAt commandConf cmd cliArgs i flag"
          using Inr True by (auto simp: recognisedAt_def)
        have "flag \<in> dom (cmd_flags c')
             \<longleftrightarrow> flag \<in> dom (cmd_flags c)
                  \<or> (\<exists>j\<ge>i. recognisedAt commandConf cmd cliArgs j flag)"
          unfolding c'(3) c1(3) recognisedAt_from [of i] using here by simp
        then show ?thesis using c'(1,2) c1(2) by simp
      next
        case False
        then obtain u flagConf where
            chk: "checkFlag i f commandConf cliArgs cmd = Inr u" and
            conf: "map_of (flags_cmd commandConf) f = Some flagConf" and
            next_run: "inputParser_loop Number cliConf cmd commandConf cliArgs
                     (snd (parseFlag Number flagConf cliArgs i) + 1)
                     (setFlag f (fst (parseFlag Number flagConf cliArgs i)) result)
                   = Inr result'"
          using run in_range no_version Inr
          by (subst (asm) inputParser_loop.simps)
             (auto simp: Let_def split: sum.splits option.splits)
        from dom_setFlag [OF cmdr np, of f "fst (parseFlag Number flagConf cliArgs i)"]
        obtain c1 where c1:
          "command (setFlag f (fst (parseFlag Number flagConf cliArgs i)) result) = Some c1"
          "cmd_name c1 = cmd_name c"
          "flag \<in> dom (cmd_flags c1) \<longleftrightarrow> flag \<in> dom (cmd_flags c) \<or> flag = f"
          by blast
        have here: "recognisedAt commandConf cmd cliArgs i flag \<longleftrightarrow> flag = f"
          using Inr False in_range scanned by (auto simp: recognisedAt_def)
        show ?thesis
        proof (cases "type_flag flagConf = TString \<or> type_flag flagConf = TNumber")
          case True
          then have idx: "snd (parseFlag Number flagConf cliArgs i) + 1 = Suc (Suc i)"
            by (auto simp: parseFlag_def)
          have tv: "takesValue commandConf cmd (cliArgs ! i)"
            using Inr False conf True by (simp add: takesValue_def)
          have c_next: "consumed commandConf cmd cliArgs (Suc i)"
            using scanned tv by simp
          then have sc: "\<not> consumed commandConf cmd cliArgs (snd (parseFlag Number flagConf cliArgs i) + 1)"
            unfolding idx by simp
          from "1.IH"(1) [OF in_range refl no_version Inr False chk conf next_run nov sc c1(1) np]
          obtain c' where c': "command result' = Some c'" "cmd_name c' = cmd_name c1"
            "flag \<in> dom (cmd_flags c')
               \<longleftrightarrow> flag \<in> dom (cmd_flags c1)
                    \<or> (\<exists>j\<ge>Suc (Suc i). recognisedAt commandConf cmd cliArgs j flag)"
            unfolding idx by blast
          have skip: "\<not> recognisedAt commandConf cmd cliArgs (Suc i) flag"
            using c_next by (simp add: recognisedAt_def)
          have "flag \<in> dom (cmd_flags c')
               \<longleftrightarrow> flag \<in> dom (cmd_flags c)
                    \<or> (\<exists>j\<ge>i. recognisedAt commandConf cmd cliArgs j flag)"
            unfolding c'(3) c1(3) recognisedAt_from [of i] recognisedAt_from [of "Suc i"] here
            using skip by blast
          then show ?thesis using c'(1,2) c1(2) by simp
        next
          case bool: False
          then have idx: "snd (parseFlag Number flagConf cliArgs i) + 1 = Suc i"
            by (auto simp: parseFlag_def)
          have tv: "\<not> takesValue commandConf cmd (cliArgs ! i)"
            using Inr conf bool by (simp add: takesValue_def)
          then have sc: "\<not> consumed commandConf cmd cliArgs (snd (parseFlag Number flagConf cliArgs i) + 1)"
            unfolding idx by simp
          from "1.IH"(1) [OF in_range refl no_version Inr False chk conf next_run nov sc c1(1) np]
          obtain c' where c': "command result' = Some c'" "cmd_name c' = cmd_name c1"
            "flag \<in> dom (cmd_flags c')
               \<longleftrightarrow> flag \<in> dom (cmd_flags c1)
                    \<or> (\<exists>j\<ge>Suc i. recognisedAt commandConf cmd cliArgs j flag)"
            unfolding idx by blast
          have "flag \<in> dom (cmd_flags c')
               \<longleftrightarrow> flag \<in> dom (cmd_flags c)
                    \<or> (\<exists>j\<ge>i. recognisedAt commandConf cmd cliArgs j flag)"
            unfolding c'(3) c1(3) recognisedAt_from [of i] here by blast
          then show ?thesis using c'(1,2) c1(2) by simp
        qed
      qed
    qed
  qed
qed





section \<open>The values of the flags mapping\<close>

lemma value_setFlag:
  assumes "command result = Some c" and "flag \<noteq> ''__proto__''"
  shows "\<exists>c1. command (setFlag f v result) = Some c1 \<and> cmd_name c1 = cmd_name c
           \<and> cmd_flags c1 flag = (if flag = f then Some v else cmd_flags c flag)"
  using assms by (cases "f = ''__proto__''") (auto simp: setFlag_def)

lemma inputParser_loop_flag_value:
  assumes "inputParser_loop Number cliConf cmd commandConf cliArgs i result = Inr result'"
    and "''--version'' \<notin> set cliArgs" and "''-v'' \<notin> set cliArgs"
    and "\<not> consumed commandConf cmd cliArgs i"
    and "command result = Some c"
    and "flag \<noteq> ''__proto__''"
    and "map_of (flags_cmd commandConf) flag = Some flagConf"
  shows "\<exists>c'. command result' = Some c' \<and> cmd_name c' = cmd_name c
           \<and> ((\<forall>j\<ge>i. \<not> recognisedAt commandConf cmd cliArgs j flag)
                 \<longrightarrow> cmd_flags c' flag = cmd_flags c flag)
           \<and> (\<forall>j\<ge>i. recognisedAt commandConf cmd cliArgs j flag
                        \<and> (\<forall>k>j. \<not> recognisedAt commandConf cmd cliArgs k flag)
                 \<longrightarrow> (type_flag flagConf \<noteq> TBoolean \<longrightarrow> j + 1 < length cliArgs)
                      \<and> cmd_flags c' flag
                          = Some (case type_flag flagConf of
                                    TString \<Rightarrow> VString (cliArgs ! (j + 1))
                                  | TNumber \<Rightarrow> VNumber (Number (Some (cliArgs ! (j + 1))))
                                  | TBoolean \<Rightarrow> VBoolean True))"
  using assms
proof (induction Number cliConf cmd commandConf cliArgs i result arbitrary: c
        rule: inputParser_loop.induct)
  case (1 Number cliConf cmd commandConf cliArgs i result)
  note run = "1.prems"(1) and nov = "1.prems"(2,3) and scanned = "1.prems"(4)
    and cmdr = "1.prems"(5) and np = "1.prems"(6) and fc = "1.prems"(7)
  define R where "R = (\<lambda>j. recognisedAt commandConf cmd cliArgs j flag)"
  define V where "V = (\<lambda>j. case type_flag flagConf of
                                    TString \<Rightarrow> VString (cliArgs ! (j + 1))
                                  | TNumber \<Rightarrow> VNumber (Number (Some (cliArgs ! (j + 1))))
                                  | TBoolean \<Rightarrow> VBoolean True)"
  define G where "G = (\<lambda>j. type_flag flagConf \<noteq> TBoolean \<longrightarrow> j + 1 < length cliArgs)"
  have goal: "\<exists>c'. command result' = Some c' \<and> cmd_name c' = cmd_name c
           \<and> ((\<forall>j\<ge>i. \<not> R j) \<longrightarrow> cmd_flags c' flag = cmd_flags c flag)
           \<and> (\<forall>j\<ge>i. R j \<and> (\<forall>k>j. \<not> R k) \<longrightarrow> G j \<and> cmd_flags c' flag = Some (V j))"
  proof (cases "i < length cliArgs")
    case False
    then have "result' = result"
      using run by (subst (asm) inputParser_loop.simps) simp
    moreover have "\<forall>j\<ge>i. \<not> R j"
      using False by (simp add: R_def recognisedAt_def)
    ultimately show ?thesis using cmdr by simp
  next
    case in_range: True
    have no_version: "\<not> (cliArgs ! i = ''--version'' \<or> cliArgs ! i = ''-v'')"
      using nov nth_mem [OF in_range] by metis
    show ?thesis
    proof (cases "flagOfArg (cliArgs ! i) commandConf cmd")
      case (Inl e)
      then show ?thesis
        using run in_range no_version
        by (subst (asm) inputParser_loop.simps) (simp add: Let_def)
    next
      case (Inr f)
      show ?thesis
      proof (cases "f = []")
        case True
        then have next_run: "inputParser_loop Number cliConf cmd commandConf cliArgs (i + 1)
                     (pushArg (cliArgs ! i) result) = Inr result'"
          using run in_range no_version Inr
          by (subst (asm) inputParser_loop.simps) (simp add: Let_def)
        have plain: "\<not> takesValue commandConf cmd (cliArgs ! i)"
          using Inr True by (simp add: takesValue_def)
        then have sc: "\<not> consumed commandConf cmd cliArgs (i + 1)" by simp
        from dom_pushArg [OF cmdr, of "cliArgs ! i"]
        obtain c1 where c1: "command (pushArg (cliArgs ! i) result) = Some c1"
          "cmd_name c1 = cmd_name c" "cmd_flags c1 = cmd_flags c" by blast
        have empty: "\<not> f \<noteq> []" using True by simp
        from "1.IH"(2) [OF in_range refl no_version Inr empty next_run nov sc c1(1) np fc]
        obtain c' where c': "command result' = Some c'" "cmd_name c' = cmd_name c1"
          "(\<forall>j\<ge>Suc i. \<not> R j) \<longrightarrow> cmd_flags c' flag = cmd_flags c1 flag"
          "\<forall>j\<ge>Suc i. R j \<and> (\<forall>k>j. \<not> R k) \<longrightarrow> G j \<and> cmd_flags c' flag = Some (V j)"
          unfolding R_def V_def G_def by auto
        have here: "\<not> R i"
          using Inr True by (auto simp: R_def recognisedAt_def)
        have p1: "(\<forall>j\<ge>i. \<not> R j) \<longrightarrow> cmd_flags c' flag = cmd_flags c flag"
          using c'(3) c1(3) by simp
        have p2: "\<forall>j\<ge>i. R j \<and> (\<forall>k>j. \<not> R k) \<longrightarrow> G j \<and> cmd_flags c' flag = Some (V j)"
        proof (intro allI impI)
          fix j assume j: "i \<le> j" "R j \<and> (\<forall>k>j. \<not> R k)"
          then have "j \<noteq> i" using here by auto
          then have "Suc i \<le> j" using j(1) by simp
          then show "G j \<and> cmd_flags c' flag = Some (V j)" using c'(4) j(2) by blast
        qed
        show ?thesis using c'(1,2) c1(2) p1 p2 by simp
      next
        case False
        then obtain u fcf where
            chk: "checkFlag i f commandConf cliArgs cmd = Inr u" and
            conf: "map_of (flags_cmd commandConf) f = Some fcf" and
            next_run: "inputParser_loop Number cliConf cmd commandConf cliArgs
                     (snd (parseFlag Number fcf cliArgs i) + 1)
                     (setFlag f (fst (parseFlag Number fcf cliArgs i)) result)
                   = Inr result'"
          using run in_range no_version Inr
          by (subst (asm) inputParser_loop.simps)
             (auto simp: Let_def split: sum.splits option.splits)
        from value_setFlag [OF cmdr np, of f "fst (parseFlag Number fcf cliArgs i)"]
        obtain c1 where c1:
          "command (setFlag f (fst (parseFlag Number fcf cliArgs i)) result) = Some c1"
          "cmd_name c1 = cmd_name c"
          "cmd_flags c1 flag
             = (if flag = f then Some (fst (parseFlag Number fcf cliArgs i)) else cmd_flags c flag)"
          by blast
        have here: "R i \<longleftrightarrow> flag = f"
          using Inr False in_range scanned by (auto simp: R_def recognisedAt_def)
        have stored: "G i \<and> fst (parseFlag Number fcf cliArgs i) = V i" if "flag = f"
        proof -
          have same: "fcf = flagConf" using that conf fc by simp
          show ?thesis
            using chk conf in_range False unfolding same G_def V_def
            by (cases "type_flag flagConf")
               (auto simp: checkFlag_def parseFlag_def at_def split: if_splits)
        qed
        obtain n where n: "snd (parseFlag Number fcf cliArgs i) + 1 = n" by simp
        have between: "i < n" "\<forall>j. i < j \<and> j < n \<longrightarrow> \<not> R j"
          and sc: "\<not> consumed commandConf cmd cliArgs n"
        proof -
          show "i < n" using n by (auto simp: parseFlag_def split: if_splits)
          show "\<forall>j. i < j \<and> j < n \<longrightarrow> \<not> R j"
          proof (cases "type_flag fcf = TString \<or> type_flag fcf = TNumber")
            case True
            then have idx: "n = Suc (Suc i)" using n by (auto simp: parseFlag_def)
            have tv: "takesValue commandConf cmd (cliArgs ! i)"
              using Inr False conf True by (simp add: takesValue_def)
            have "consumed commandConf cmd cliArgs (Suc i)"
              using scanned tv by simp
            then have "\<not> R (Suc i)" by (simp add: R_def recognisedAt_def)
            moreover have "j = Suc i" if "i < j" "j < n" for j using that idx by simp
            ultimately show ?thesis by blast
          next
            case False
            then have idx: "n = Suc i" using n by (auto simp: parseFlag_def)
            then show ?thesis by auto
          qed
          show "\<not> consumed commandConf cmd cliArgs n"
          proof (cases "type_flag fcf = TString \<or> type_flag fcf = TNumber")
            case True
            then have idx: "n = Suc (Suc i)" using n by (auto simp: parseFlag_def)
            have tv: "takesValue commandConf cmd (cliArgs ! i)"
              using Inr False conf True by (simp add: takesValue_def)
            show ?thesis unfolding idx using scanned tv by simp
          next
            case bool: False
            then have idx: "n = Suc i" using n by (auto simp: parseFlag_def)
            have tv: "\<not> takesValue commandConf cmd (cliArgs ! i)"
              using Inr conf bool by (simp add: takesValue_def)
            show ?thesis unfolding idx using tv by simp
          qed
        qed
        have sc': "\<not> consumed commandConf cmd cliArgs (snd (parseFlag Number fcf cliArgs i) + 1)"
          using sc n by simp
        from "1.IH"(1) [OF in_range refl no_version Inr False chk conf next_run nov sc' c1(1) np fc]
        obtain c' where c': "command result' = Some c'" "cmd_name c' = cmd_name c1"
          "(\<forall>j\<ge>n. \<not> R j) \<longrightarrow> cmd_flags c' flag = cmd_flags c1 flag"
          "\<forall>j\<ge>n. R j \<and> (\<forall>k>j. \<not> R k) \<longrightarrow> G j \<and> cmd_flags c' flag = Some (V j)"
          unfolding R_def V_def G_def n by auto
        have p1: "(\<forall>j\<ge>i. \<not> R j) \<longrightarrow> cmd_flags c' flag = cmd_flags c flag"
        proof
          assume none: "\<forall>j\<ge>i. \<not> R j"
          then have "flag \<noteq> f" using here by auto
          moreover have "\<forall>j\<ge>n. \<not> R j" using none between(1) by auto
          ultimately show "cmd_flags c' flag = cmd_flags c flag" using c'(3) c1(3) by simp
        qed
        have p2: "\<forall>j\<ge>i. R j \<and> (\<forall>k>j. \<not> R k) \<longrightarrow> G j \<and> cmd_flags c' flag = Some (V j)"
        proof (intro allI impI)
          fix j assume j: "i \<le> j" "R j \<and> (\<forall>k>j. \<not> R k)"
          show "G j \<and> cmd_flags c' flag = Some (V j)"
          proof (cases "j = i")
            case True
            then have eq: "flag = f" using j(2) here by simp
            have "\<forall>k\<ge>n. \<not> R k" using j(2) True between(1) by auto
            then have "cmd_flags c' flag = cmd_flags c1 flag" using c'(3) by simp
            then show ?thesis using stored [OF eq] c1(3) eq True by simp
          next
            case False
            then have "i < j" using j(1) by simp
            then have "n \<le> j" using between(2) j(2) by (meson not_le_imp_less)
            then show ?thesis using c'(4) j(2) by blast
          qed
        qed
        show ?thesis using c'(1,2) c1(2) p1 p2 by simp
      qed
    qed
  qed
  then show ?case unfolding R_def V_def G_def .
qed

text \<open>
  The value of a flag in the result of a resolved command is the one stored at the last
  position of the command's tokens at which the flag is recognised: for a flag of type
  \<open>string\<close> the token that follows, for a flag of type \<open>number\<close> the conversion
  \<open>Number\<close> of the token that follows, for a flag of type \<open>boolean\<close> the value \<open>true\<close>;
  a flag of type \<open>string\<close> or \<open>number\<close> that is recognised has a token after it. So a
  later occurrence of a flag overwrites an earlier one. Nothing is stated for a flag of
  name \<open>__proto__\<close>.
\<close>

theorem inputParser_flag_value:
  assumes "inputParser Number inputCliArgs cliConf = Inr result"
    and "command result = Some c"
    and "map_of (commands cliConf) (cmd_name c) = Some commandConf"
    and "flag \<noteq> ''__proto__''"
    and "recognisedAt commandConf (cmd_name c) (scannedTokens inputCliArgs) j flag"
    and "\<forall>k>j. \<not> recognisedAt commandConf (cmd_name c) (scannedTokens inputCliArgs) k flag"
  shows "\<exists>flagConf. map_of (flags_cmd commandConf) flag = Some flagConf
           \<and> (type_flag flagConf \<noteq> TBoolean \<longrightarrow> j + 1 < length (scannedTokens inputCliArgs))
           \<and> cmd_flags c flag
               = Some (case type_flag flagConf of
                         TString \<Rightarrow> VString (scannedTokens inputCliArgs ! (j + 1))
                       | TNumber \<Rightarrow> VNumber (Number (Some (scannedTokens inputCliArgs ! (j + 1))))
                       | TBoolean \<Rightarrow> VBoolean True)"
  using assms(1)
proof (cases rule: inputParser_Inr_cases)
  case version
  then show ?thesis using assms(2) by simp
next
  case global_help
  then show ?thesis using assms(2) by simp
next
  case (resolved isHelpe cmd rest commandConf')
  let ?init = "\<lparr>success = True, action = (if isHelpe then Help else Command), output_str = [],
          command = Some \<lparr>cmd_name = cmd, cmd_args = [], cmd_flags = Map.empty\<rparr>\<rparr>"
  have nov: "''--version'' \<notin> set rest" "''-v'' \<notin> set rest"
    using resolved(1,6,7) by auto
  have start: "\<not> consumed commandConf' cmd rest 0" by simp
  have init: "command ?init = Some \<lparr>cmd_name = cmd, cmd_args = [], cmd_flags = Map.empty\<rparr>"
    by simp
  from inputParser_loop_flag_dom [OF resolved(4) nov start init assms(4)]
  have name: "cmd_name c = cmd" using assms(2) by auto
  have same: "commandConf' = commandConf" using resolved(3) assms(3) name by simp
  have rec: "recognisedAt commandConf cmd rest j flag"
    and last: "\<forall>k>j. \<not> recognisedAt commandConf cmd rest k flag"
    using assms(5,6) name resolved(5) by simp_all
  have "flag \<noteq> []" "flagOfArg (rest ! j) commandConf cmd = Inr flag"
    using rec by (simp_all add: recognisedAt_def)
  then have "flag \<in> set (map fst (flags_cmd commandConf))"
    by (intro flagOfArg_declared) 
  from declared_flag_has_conf [OF this]
  obtain flagConf where fc: "map_of (flags_cmd commandConf) flag = Some flagConf" ..
  from inputParser_loop_flag_value
         [OF resolved(4) [unfolded same] nov start [unfolded same] init assms(4) fc]
  obtain c' where c': "command result = Some c'"
    "\<forall>j\<ge>0. recognisedAt commandConf cmd rest j flag
              \<and> (\<forall>k>j. \<not> recognisedAt commandConf cmd rest k flag)
        \<longrightarrow> (type_flag flagConf \<noteq> TBoolean \<longrightarrow> j + 1 < length rest)
            \<and> cmd_flags c' flag
                = Some (case type_flag flagConf of
                          TString \<Rightarrow> VString (rest ! (j + 1))
                        | TNumber \<Rightarrow> VNumber (Number (Some (rest ! (j + 1))))
                        | TBoolean \<Rightarrow> VBoolean True)"
    by blast
  have "c' = c" using c'(1) assms(2) by simp
  with c'(2) rec last have
    "(type_flag flagConf \<noteq> TBoolean \<longrightarrow> j + 1 < length rest)
            \<and> cmd_flags c flag
                = Some (case type_flag flagConf of
                          TString \<Rightarrow> VString (rest ! (j + 1))
                        | TNumber \<Rightarrow> VNumber (Number (Some (rest ! (j + 1))))
                        | TBoolean \<Rightarrow> VBoolean True)"
    by blast
  then show ?thesis using fc unfolding resolved(5) by blast
qed

theorem inputParser_flag_value_witness:
  "inputParser (\<lambda>v. case v of None \<Rightarrow> 0 | Some s \<Rightarrow> int (length s))
       [''init'', ''--label'', ''a'', ''-l'', ''-f'', ''pos''] appConf
     = Inr \<lparr>success = True, action = Command, output_str = [],
             command = Some \<lparr>cmd_name = ''init'', cmd_args = [''pos''],
                             cmd_flags = [''label'' \<mapsto> VString ''-f'']\<rparr>\<rparr>
   \<and> scannedTokens [''init'', ''--label'', ''a'', ''-l'', ''-f'', ''pos'']
       = [''--label'', ''a'', ''-l'', ''-f'', ''pos'']
   \<and> recognisedAt (initConf :: int CommandType) ''init''
        [''--label'', ''a'', ''-l'', ''-f'', ''pos''] 2 ''label''
   \<and> [''--label'', ''a'', ''-l'', ''-f'', ''pos''] ! (2 + 1) = ''-f''"
proof -
  let ?N = "\<lambda>v. case v of None \<Rightarrow> 0 | Some s \<Rightarrow> int (length s)"
  let ?c = "\<lparr>cmd_name = ''init'', cmd_args = [''pos''],
             cmd_flags = [''label'' \<mapsto> VString ''-f'']\<rparr> :: int CommandResult"
  let ?r = "\<lparr>success = True, action = Command, output_str = [], command = Some ?c\<rparr>"
  let ?toks = "[''--label'', ''a'', ''-l'', ''-f'', ''pos'']"
  have run: "inputParser ?N [''init'', ''--label'', ''a'', ''-l'', ''-f'', ''pos''] appConf = Inr ?r"
    by (simp add: appConf_def initConf_def eval_defs)
  have toks: "scannedTokens [''init'', ''--label'', ''a'', ''-l'', ''-f'', ''pos''] = ?toks"
    by (simp add: scannedTokens_def)
  have conf: "map_of (commands (appConf :: int CliConfType)) (cmd_name ?c) = Some initConf"
    by (simp add: appConf_def)
  have c1: "consumed (initConf :: int CommandType) ''init'' ?toks (Suc 0)"
    by (simp add: initConf_def takesValue_def eval_defs)
  have c2: "\<not> consumed (initConf :: int CommandType) ''init'' ?toks (Suc (Suc 0))"
    using c1 by simp
  have c3: "consumed (initConf :: int CommandType) ''init'' ?toks (Suc (Suc (Suc 0)))"
    using c2 by (simp add: initConf_def takesValue_def eval_defs)
  have c4: "\<not> consumed (initConf :: int CommandType) ''init'' ?toks (Suc (Suc (Suc (Suc 0))))"
    using c3 by simp
  have r2: "recognisedAt (initConf :: int CommandType) ''init'' ?toks 2 ''label''"
    unfolding recognisedAt_def numeral_2_eq_2
    using c2 by (simp add: initConf_def eval_defs)
  have late: "\<not> recognisedAt (initConf :: int CommandType) ''init'' ?toks k ''label''" if "2 < k" for k
  proof (cases "k < 5")
    case False
    then show ?thesis by (simp add: recognisedAt_def)
  next
    case True
    with that have "k = Suc (Suc (Suc 0)) \<or> k = Suc (Suc (Suc (Suc 0)))" by arith
    then show ?thesis
    proof
      assume "k = Suc (Suc (Suc 0))"
      then show ?thesis using c3 by (simp add: recognisedAt_def)
    next
      assume "k = Suc (Suc (Suc (Suc 0)))"
      then show ?thesis by (simp add: recognisedAt_def initConf_def eval_defs)
    qed
  qed
  have last: "\<forall>k>2. \<not> recognisedAt (initConf :: int CommandType) (cmd_name ?c)
                         (scannedTokens [''init'', ''--label'', ''a'', ''-l'', ''-f'', ''pos''])
                         k ''label''"
    unfolding toks using late by simp
  have rec: "recognisedAt (initConf :: int CommandType) (cmd_name ?c)
               (scannedTokens [''init'', ''--label'', ''a'', ''-l'', ''-f'', ''pos'']) 2 ''label''"
    unfolding toks using r2 by simp
  from inputParser_flag_value [OF run _ conf _ rec last]
  have "cmd_flags ?c ''label'' = Some (VString (?toks ! (2 + 1)))"
    unfolding toks by (simp add: initConf_def)
  then have "?toks ! (2 + 1) = ''-f''" by simp
  with run toks r2 show ?thesis by simp
qed

section \<open>Keys of the flags mapping and positional arguments\<close>

lemma startsWith_dashes: "startsWith arg ''--'' \<Longrightarrow> startsWith arg ''-''"
  by (cases arg) (auto simp: startsWith_def split: if_splits)

lemma flagOfArg_empty:
  assumes "flagOfArg arg commandConf cmd = Inr []"
    and "[] \<notin> fst ` set (flags_cmd commandConf)"
  shows "\<not> startsWith arg ''-''"
proof
  assume dash: "startsWith arg ''-''"
  show False
  proof (cases "startsWith arg ''--''")
    case True
    then show False
      using assms(1)
      by (auto simp: flagOfArg_def hasFlag_def checkFlagNotEempty_def Let_def
          split: if_splits)
  next
    case False
    then have "hasAliasFlag arg commandConf cmd = Inr []"
      using assms(1) by (simp add: flagOfArg_def hasFlag_def)
    then have "map_of (aliasMapFlag (flags_cmd commandConf)) (drop 1 arg) = Some []"
      using dash
      by (simp add: hasAliasFlag_def checkFlagNotEempty_def Let_def
          split: if_splits option.splits)
    from map_of_aliasMapFlag [OF this] assms(2) show False by simp
  qed
qed

lemma inputParser_positional_args:
  assumes "inputParser Number inputCliArgs cliConf = Inr result"
    and "command result = Some c"
    and "map_of (commands cliConf) (cmd_name c) = Some commandConf"
    and "[] \<notin> fst ` set (flags_cmd commandConf)"
    and "a \<in> set (cmd_args c)"
  shows "\<not> startsWith a ''-''"
  using assms(1)
proof (cases rule: inputParser_Inr_cases)
  case version
  then show ?thesis using assms(2) by simp
next
  case global_help
  then show ?thesis using assms(2) by simp
next
  case (resolved isHelpe cmd rest commandConf')
  define Q where "Q = (\<lambda>r :: 'a InputActionType. \<exists>c'. command r = Some c' \<and> cmd_name c' = cmd
      \<and> (commandConf' = commandConf \<longrightarrow> (\<forall>a \<in> set (cmd_args c'). \<not> startsWith a ''-'')))"
  have "Q result"
  proof (rule inputParser_loop_invariant [OF resolved(4), where Q = Q])
    show "Q \<lparr>success = True, action = if isHelpe then Help else Command, output_str = [],
             command = Some \<lparr>cmd_name = cmd, cmd_args = [], cmd_flags = Map.empty\<rparr>\<rparr>"
      by (simp add: Q_def)
  next
    fix r j f v
    assume "Q r"
    then show "Q (setFlag f v r)"
      by (cases "f = ''__proto__''") (auto simp: Q_def setFlag_def)
  next
    fix r j
    assume "Q r" and "flagOfArg (rest ! j) commandConf' cmd = Inr []"
    then show "Q (pushArg (rest ! j) r)"
      using flagOfArg_empty [of "rest ! j" commandConf cmd] assms(4)
      by (auto simp: Q_def pushArg_def)
  next
    fix r
    assume "Q r"
    then show "Q (r\<lparr>action := Version, output_str := name cliConf @ ''@'' @ version cliConf\<rparr>)"
      by (auto simp: Q_def)
  qed
  then show ?thesis
    using assms(2,3,5) resolved(3) by (auto simp: Q_def)
qed

lemma inputParser_command_declared:
  assumes "inputParser Number inputCliArgs cliConf = Inr result"
    and "command result = Some c"
  shows "\<exists>commandConf. map_of (commands cliConf) (cmd_name c) = Some commandConf"
  using assms(1)
proof (cases rule: inputParser_Inr_cases)
  case version
  then show ?thesis using assms(2) by simp
next
  case global_help
  then show ?thesis using assms(2) by simp
next
  case (resolved isHelpe cmd rest commandConf)
  define Q where "Q = (\<lambda>r :: 'a InputActionType. \<exists>c'. command r = Some c' \<and> cmd_name c' = cmd)"
  have "Q result"
  proof (rule inputParser_loop_invariant [OF resolved(4), where Q = Q])
    show "Q \<lparr>success = True, action = if isHelpe then Help else Command, output_str = [],
             command = Some \<lparr>cmd_name = cmd, cmd_args = [], cmd_flags = Map.empty\<rparr>\<rparr>"
      by (simp add: Q_def)
  next
    fix r f v
    assume "Q r"
    then show "Q (setFlag f v r)"
      by (cases "f = ''__proto__''") (auto simp: Q_def setFlag_def)
  next
    fix r j
    assume "Q r"
    then show "Q (pushArg (rest ! j) r)"
      by (auto simp: Q_def pushArg_def)
  next
    fix r
    assume "Q r"
    then show "Q (r\<lparr>action := Version, output_str := name cliConf @ ''@'' @ version cliConf\<rparr>)"
      by (auto simp: Q_def)
  qed
  then have "\<exists>c'. command result = Some c' \<and> cmd_name c' = cmd"
    by (simp add: Q_def)
  then show ?thesis using assms(2) resolved(3) by auto
qed

text \<open>
  Every key of the flags mapping of a resolved command is a flag name declared for that
  command, and when the command declares no flag of empty name, no positional argument
  starts with \<open>-\<close>.
\<close>

theorem inputParser_resolved_invariant:
  assumes "inputParser Number inputCliArgs cliConf = Inr result"
    and "command result = Some c"
  shows "\<exists>commandConf. map_of (commands cliConf) (cmd_name c) = Some commandConf
           \<and> dom (cmd_flags c) \<subseteq> fst ` set (flags_cmd commandConf)
           \<and> ([] \<notin> fst ` set (flags_cmd commandConf)
                \<longrightarrow> (\<forall>a \<in> set (cmd_args c). \<not> startsWith a ''-''))"
proof -
  from inputParser_command_declared [OF assms]
  obtain commandConf where conf: "map_of (commands cliConf) (cmd_name c) = Some commandConf" ..
  have keys: "dom (cmd_flags c) \<subseteq> fst ` set (flags_cmd commandConf)"
  proof
    fix flag assume key: "flag \<in> dom (cmd_flags c)"
    from inputParser_flag_keys [OF assms key]
    obtain commandConf' tok where
      conf': "map_of (commands cliConf) (cmd_name c) = Some commandConf'" and
      tok: "flagOfArg tok commandConf' (cmd_name c) = Inr flag" "flag \<noteq> []"
      by blast
    from conf conf' have "commandConf' = commandConf" by simp
    with flagOfArg_declared [OF tok] show "flag \<in> fst ` set (flags_cmd commandConf)" by simp
  qed
  have args: "[] \<notin> fst ` set (flags_cmd commandConf)
                \<longrightarrow> (\<forall>a \<in> set (cmd_args c). \<not> startsWith a ''-'')"
  proof (intro impI ballI)
    fix a assume "[] \<notin> fst ` set (flags_cmd commandConf)" "a \<in> set (cmd_args c)"
    then show "\<not> startsWith a ''-''"
      by (rule inputParser_positional_args [OF assms conf])
  qed
  show ?thesis
    by (rule exI [of _ commandConf]) (intro conjI conf keys args)
qed

theorem inputParser_resolved_invariant_witness:
  "inputParser (\<lambda>v. 0::int) [''init'', ''pos'', ''-f''] appConf
     = Inr \<lparr>success = True, action = Command, output_str = [],
             command = Some \<lparr>cmd_name = ''init'', cmd_args = [''pos''],
                             cmd_flags = [''force'' \<mapsto> VBoolean True]\<rparr>\<rparr>
   \<and> ''force'' \<in> fst ` set (flags_cmd (initConf :: int CommandType))
   \<and> \<not> startsWith ''pos'' ''-''"
proof -
  have run: "inputParser (\<lambda>v. 0::int) [''init'', ''pos'', ''-f''] appConf
     = Inr \<lparr>success = True, action = Command, output_str = [],
             command = Some \<lparr>cmd_name = ''init'', cmd_args = [''pos''],
                             cmd_flags = [''force'' \<mapsto> VBoolean True]\<rparr>\<rparr>"
    by (simp add: appConf_def initConf_def eval_defs)
  from inputParser_resolved_invariant [OF run, of
         "\<lparr>cmd_name = ''init'', cmd_args = [''pos''], cmd_flags = [''force'' \<mapsto> VBoolean True]\<rparr>"]
  show ?thesis
    using run by (simp add: appConf_def initConf_def)
qed

text \<open>
  C8. A configuration that passes the validation may declare a flag whose name is the
  empty string. Its alias resolves to that name, which the scan takes for "not a flag":
  the token \<open>-x\<close> becomes a positional argument of the resolved command, although it
  starts with \<open>-\<close>.
\<close>

theorem inputParser_empty_flag_name_positional:
  "cliConfParser_check (emptyNameJson :: int json) = Inr ()
   \<and> inputParser (\<lambda>v. 0::int) [''init'', ''-x''] (asCliConfType emptyNameJson)
       = Inr \<lparr>success = True, action = Command, output_str = [],
               command = Some \<lparr>cmd_name = ''init'', cmd_args = [''-x''], cmd_flags = Map.empty\<rparr>\<rparr>
   \<and> startsWith ''-x'' ''-''"
  by (simp add: emptyNameJson_def validate_defs eval_defs)

text \<open>
  C5. A configuration that passes the validation may declare a flag of name \<open>__proto__\<close>.
  The scan recognises the token \<open>--__proto__\<close> as that flag, of type \<open>boolean\<close>, and
  assigns \<open>true\<close> to \<open>flags["__proto__"]\<close>, which stores nothing: the flags mapping of the
  result is empty, and the value of the recognised flag is not set to \<open>true\<close>.
\<close>

theorem inputParser_proto_flag_not_stored:
  "cliConfParser_check (protoJson :: int json) = Inr ()
   \<and> commands (asCliConfType (protoJson :: int json))
       = [(''init'',
           \<lparr>description_cmd = ''x'', args_cmd = [],
            flags_cmd = [(''__proto__'',
                          \<lparr>type_flag = TBoolean, default_flag = VBoolean False,
                           description_flag = ''p'', alias_flag = ''p''\<rparr>)]\<rparr>)]
   \<and> flagOfArg ''--__proto__''
        \<lparr>description_cmd = ''x'', args_cmd = [],
         flags_cmd = [(''__proto__'',
                       \<lparr>type_flag = TBoolean, default_flag = VBoolean (False::bool),
                        description_flag = ''p'', alias_flag = ''p''\<rparr> :: int FlagConfig)]\<rparr>
        ''init''
       = Inr ''__proto__''
   \<and> inputParser (\<lambda>v. 0::int) [''init'', ''--__proto__''] (asCliConfType protoJson)
       = Inr \<lparr>success = True, action = Command, output_str = [],
               command = Some \<lparr>cmd_name = ''init'', cmd_args = [], cmd_flags = Map.empty\<rparr>\<rparr>"
  by (simp add: protoJson_def validate_defs eval_defs)

section \<open>The validator reports the first violation\<close>

lemma mentions_nil [simp]: "mentions m []"
  by (cases m) simp_all

lemma mentions_prefix: "mentions (s @ b) s"
proof (cases "s @ b")
  case Nil
  then show ?thesis by simp
next
  case (Cons a list)
  have "take (length s) (s @ b) = s" by simp
  then show ?thesis unfolding Cons by simp
qed

lemma mentionsI: "m = a @ s @ b \<Longrightarrow> mentions m s"
proof (induction a arbitrary: m)
  case Nil
  then show ?case by (simp add: mentions_prefix)
next
  case (Cons x a)
  then show ?case by simp
qed

lemma hasOwnProperty_not_null: "obj \<noteq> JNull \<Longrightarrow> \<exists>b. hasOwnProperty obj field = Inr b"
  by (cases obj) auto

lemma reports_done: "reports (Inr ()) []"
  by (simp add: reports_def)

lemma reports_null: "reports (Inl TypeError) ((path, NullValue) # vs)"
  by (simp add: reports_def)

lemma reports_seq:
  assumes "reports r1 v1" and "r1 = Inr () \<Longrightarrow> reports k v2"
  shows "reports (case r1 of Inl e \<Rightarrow> Inl e | Inr u \<Rightarrow> k) (v1 @ v2)"
proof (cases v1)
  case Nil
  then have "r1 = Inr ()" using assms(1) by (simp add: reports_def)
  then show ?thesis using assms(2) Nil by simp
next
  case (Cons v rest)
  then have "\<exists>e. r1 = Inl e" using assms(1) by (auto simp: reports_def split: if_splits)
  then show ?thesis using assms(1) Cons by (auto simp: reports_def)
qed

lemma reports_field:
  assumes "obj \<noteq> JNull"
    and "m1 = diagnostic (path @ [field]) Missing"
    and "m2 = diagnostic (path @ [field]) Mistyped"
    and "hasOwnProperty obj field = Inr True \<Longrightarrow> wellTyped (getProp obj field) \<Longrightarrow> reports k vs"
  shows "reports
           (case hasOwnProperty obj field of
              Inl e \<Rightarrow> Inl e
            | Inr has \<Rightarrow>
                if \<not> has then Inl (ExitError m1)
                else if \<not> wellTyped (getProp obj field) then Inl (ExitError m2)
                else k)
           (fieldViolation path obj field wellTyped @ vs)"
proof -
  from hasOwnProperty_not_null [OF assms(1)] obtain b where b: "hasOwnProperty obj field = Inr b" ..
  show ?thesis
  proof (cases b)
    case False
    then show ?thesis using b assms(2) by (simp add: fieldViolation_def reports_def)
  next
    case True
    show ?thesis
    proof (cases "wellTyped (getProp obj field)")
      case False
      then show ?thesis using b True assms(3) by (simp add: fieldViolation_def reports_def)
    next
      case wt: True
      then show ?thesis using b True assms(4) by (simp add: fieldViolation_def)
    qed
  qed
qed

lemma reports_forEach:
  assumes "\<And>x. x \<in> set xs \<Longrightarrow> reports (f x) (viol x)"
  shows "reports (forEach f xs) (concat (map viol xs))"
  using assms
proof (induction xs)
  case Nil
  then show ?case by (simp add: reports_done)
next
  case (Cons x xs)
  have "reports (case f x of Inl e \<Rightarrow> Inl e | Inr u \<Rightarrow> forEach f xs)
          (viol x @ concat (map viol xs))"
    by (rule reports_seq) (simp_all add: Cons)
  then show ?case by simp
qed

lemma isString_eq: "isString = (\<lambda>v. typeof v = ''string'')"
  by (rule ext) (simp add: isString_def)

lemma isPrimitive_eq: "isPrimitive = (\<lambda>v. typeof v \<in> set allowedTypes)"
  by (rule ext) (simp add: isPrimitive_def)

lemma isObject_eq: "isObject = (\<lambda>v. typeof v = ''object'')"
  by (rule ext) (simp add: isObject_def)

lemma mentions_append_left: "mentions a s \<Longrightarrow> mentions (a @ b) s"
proof (induction a)
  case Nil
  then show ?case by (simp add: mentions_prefix [of "[]", simplified])
next
  case (Cons x a)
  from Cons.prems have "take (length s) (x # a) = s \<or> mentions a s" by simp
  then show ?case
  proof
    assume "take (length s) (x # a) = s"
    then have "x # a = s @ drop (length s) (x # a)"
      by (metis append_take_drop_id)
    then have "(x # a) @ b = [] @ s @ (drop (length s) (x # a) @ b)" by simp
    then show ?thesis by (rule mentionsI)
  next
    assume "mentions a s"
    then show ?thesis using Cons.IH by simp
  qed
qed

lemma reports_flag:
  "reports (cliConfParser_flag cn flagEntry) (flagViolations cn flagEntry)"
proof (cases "snd flagEntry = JNull")
  case True
  then show ?thesis
    by (simp add: cliConfParser_flag_def flagViolations_def nullAt_def reports_null Let_def)
next
  case False
  obtain fn flagConf where entry: "flagEntry = (fn, flagConf)" by (cases flagEntry)
  have notnull: "flagConf \<noteq> JNull" using False entry by simp
  let ?path = "[''commands'', cn, ''flags'', fn]"
  have d0: "''The command flag must have a type property in commands.'' @ cn
      = diagnostic (?path @ [''type'']) Missing"
    by (simp add: diagnostic_def)
  have d1: "''The command flag type property must be a string, number or boolean in commands.'' @ cn @ ''.flags.'' @ fn
      = diagnostic (?path @ [''type'']) Mistyped"
    by (simp add: diagnostic_def)
  have d2: "''The command flag must have a default property in commands.'' @ cn @ ''.flags.'' @ fn
      = diagnostic (?path @ [''default'']) Missing"
    by (simp add: diagnostic_def)
  have d3: "''The command flag default property must be a string, number or boolean in commands.'' @ cn @ ''.flags.'' @ fn
      = diagnostic (?path @ [''default'']) Mistyped"
    by (simp add: diagnostic_def)
  have d4: "''The command flag must have a description property in commands.'' @ cn @ ''.flags.'' @ fn
      = diagnostic (?path @ [''description'']) Missing"
    by (simp add: diagnostic_def)
  have d5: "''The command flag description property must be a string in commands.'' @ cn @ ''.flags.'' @ fn
      = diagnostic (?path @ [''description'']) Mistyped"
    by (simp add: diagnostic_def)
  have d6: "''The command flag must have an alias property in commands.'' @ cn @ ''.flags.'' @ fn
      = diagnostic (?path @ [''alias'']) Missing"
    by (simp add: diagnostic_def)
  have d7: "''The command flag alias property must be a string in commands.'' @ cn @ ''.flags.'' @ fn
      = diagnostic (?path @ [''alias'']) Mistyped"
    by (simp add: diagnostic_def)
  have "reports (cliConfParser_flag cn (fn, flagConf))
          (fieldViolation ?path flagConf ''type'' includesAllowed
           @ fieldViolation ?path flagConf ''default'' (\<lambda>v. typeof v \<in> set allowedTypes)
           @ fieldViolation ?path flagConf ''description'' (\<lambda>v. typeof v = ''string'')
           @ fieldViolation ?path flagConf ''alias'' (\<lambda>v. typeof v = ''string'') @ [])"
    unfolding cliConfParser_flag_def Let_def fst_conv snd_conv
    by (intro reports_field notnull reports_done d0 d1 d2 d3 d4 d5 d6 d7)
  then show ?thesis
    using notnull
    by (simp add: entry flagViolations_def nullAt_def isString_eq isPrimitive_eq Let_def)
qed


lemma reports_arg:
  "reports (cliConfParser_arg cn arg) (argViolations cn (idx, arg))"
proof (cases "arg = JNull")
  case True
  then show ?thesis
    by (simp add: cliConfParser_arg_def argViolations_def nullAt_def reports_null Let_def)
next
  case False
  let ?path = "[''commands'', cn, ''args'', idx]"
  have d0: "''The command arg must have a name property in commands.'' @ cn
      = diagnostic (?path @ [''name'']) Missing"
    by (simp add: diagnostic_def)
  have d1: "''The command arg name property must be a string in commands.'' @ cn
      = diagnostic (?path @ [''name'']) Mistyped"
    by (simp add: diagnostic_def)
  have "reports (cliConfParser_arg cn arg)
          (fieldViolation ?path arg ''name'' (\<lambda>v. typeof v = ''string'') @ [])"
    unfolding cliConfParser_arg_def
    by (intro reports_field False reports_done d0 d1)
  then show ?thesis
    using False by (simp add: argViolations_def nullAt_def isString_eq Let_def)
qed

lemma reports_args:
  "length ks = length xs \<Longrightarrow>
   reports (forEach (cliConfParser_arg cn) xs) (concat (map (argViolations cn) (zip ks xs)))"
proof (induction xs arbitrary: ks)
  case Nil
  then show ?case by (simp add: reports_done)
next
  case (Cons x xs)
  then obtain k ks' where ks: "ks = k # ks'" "length ks' = length xs"
    by (cases ks) auto
  have "reports (case cliConfParser_arg cn x of Inl e \<Rightarrow> Inl e
                 | Inr u \<Rightarrow> forEach (cliConfParser_arg cn) xs)
          (argViolations cn (k, x) @ concat (map (argViolations cn) (zip ks' xs)))"
    by (rule reports_seq) (simp_all add: reports_arg Cons.IH ks)
  then show ?case by (simp add: ks)
qed

lemma reports_entries:
  assumes "\<And>x. reports (f x) (viol x)" and "typeof v = ''object''"
  shows "reports (case entriesOf v of Inl e \<Rightarrow> Inl e | Inr es \<Rightarrow> forEach f es)
           (nullAt p v
            @ (if typeof v = ''object'' then concat (map viol (entriesOrEmpty v)) else []))"
proof (cases "v = Some JNull")
  case True
  then show ?thesis by (simp add: nullAt_def reports_null)
next
  case False
  with assms(2) obtain j es where v: "v = Some j" "entries j = Inr es"
    by (cases v; cases "the v") auto
  have "reports (forEach f es) (concat (map viol es))"
    by (rule reports_forEach) (rule assms(1))
  then show ?thesis
    using False assms(2) v by (simp add: nullAt_def entriesOrEmpty_def)
qed

lemma length_indices [simp]: "length (indices n) = n"
  by (simp add: indices_def)

lemma digits_show_nat: "set (show_nat n) \<subseteq> set ''0123456789''"
proof (induction n rule: show_nat.induct)
  case (1 n)
  have digit: "''0123456789'' ! k \<in> set ''0123456789''" if "k < 10" for k
    using that by (intro nth_mem) simp
  show ?case
  proof (cases "n < 10")
    case True
    then show ?thesis using digit [of n] by (subst show_nat.simps) simp
  next
    case False
    have "n mod 10 < 10" by simp
    from digit [OF this] 1 False show ?thesis
      by (subst show_nat.simps) simp
  qed
qed

lemma not_an_index:
  "c \<in> set field \<Longrightarrow> c \<notin> set ''0123456789'' \<Longrightarrow> field \<notin> set (indices n)"
  using digits_show_nat by (auto simp: indices_def)

lemma reports_field_keys:
  assumes "obj \<noteq> JNull"
    and "c \<in> set field" and "c \<notin> set ''0123456789''" and "field \<noteq> ''length''"
    and "m1 = diagnostic (path @ [field]) Missing"
    and "m2 = diagnostic (path @ [field]) Mistyped"
    and "hasOwnProperty obj field = Inr True \<Longrightarrow> wellTyped (getProp obj field) \<Longrightarrow> reports k vs"
  shows "reports
           (case entries obj of
              Inl e \<Rightarrow> Inl e
            | Inr props \<Rightarrow>
                if field \<notin> set (map fst props) then Inl (ExitError m1)
                else if \<not> wellTyped (getProp obj field) then Inl (ExitError m2)
                else k)
           (fieldViolation path obj field wellTyped @ vs)"
proof -
  have no_index: "field \<notin> set (indices n)" for n
    using assms(2,3) by (rule not_an_index)
  have same: "(case entries obj of
              Inl e \<Rightarrow> Inl e
            | Inr props \<Rightarrow>
                if field \<notin> set (map fst props) then Inl (ExitError m1)
                else if \<not> wellTyped (getProp obj field) then Inl (ExitError m2)
                else k)
        = (case hasOwnProperty obj field of
              Inl e \<Rightarrow> Inl e
            | Inr has \<Rightarrow>
                if \<not> has then Inl (ExitError m1)
                else if \<not> wellTyped (getProp obj field) then Inl (ExitError m2)
                else k)"
    using assms(1,4) no_index by (cases obj) (simp_all add: map_fst_zip)
  show ?thesis
    unfolding same by (rule reports_field) (rule assms)+
qed

lemma reports_command:
  "reports (cliConfParser_command commandEntry) (commandViolations commandEntry)"
proof (cases "snd commandEntry = JNull")
  case True
  then show ?thesis
    by (simp add: cliConfParser_command_def commandViolations_def nullAt_def reports_null Let_def)
next
  case False
  obtain cn commandConf where entry: "commandEntry = (cn, commandConf)" by (cases commandEntry)
  have notnull: "commandConf \<noteq> JNull" using False entry by simp
  let ?path = "[''commands'', cn]"
  let ?args = "elements (getProp commandConf ''args'')"
  let ?flags = "getProp commandConf ''flags''"
  have d0: "''the commands.'' @ cn @ ''.description property in config was required''
      = diagnostic (?path @ [''description'']) Missing"
    by (simp add: diagnostic_def)
  have d1: "''the commands.'' @ cn @ ''.description property must be a string''
      = diagnostic (?path @ [''description'']) Mistyped"
    by (simp add: diagnostic_def)
  have d2: "''The command must have an args property in commands.'' @ cn
      = diagnostic (?path @ [''args'']) Missing"
    by (simp add: diagnostic_def)
  have d3: "''The command args property must be an array in commands.'' @ cn
      = diagnostic (?path @ [''args'']) Mistyped"
    by (simp add: diagnostic_def)
  have d4: "''The command must have an flags property in commands.'' @ cn
      = diagnostic (?path @ [''flags'']) Missing"
    by (simp add: diagnostic_def)
  have d5: "''The command flags property must be an object in commands.'' @ cn
      = diagnostic (?path @ [''flags'']) Mistyped"
    by (simp add: diagnostic_def)
  have c: "CHR ''d'' \<in> set ''description''" "CHR ''d'' \<notin> set ''0123456789''"
    "''description'' \<noteq> ''length''"
    by simp_all
  have args: "reports (forEach (cliConfParser_arg cn) ?args)
                (concat (map (argViolations cn) (zip (indices (length ?args)) ?args)))"
    by (rule reports_args) simp
  have flags: "reports
      (case entriesOf ?flags of
         Inl e \<Rightarrow> Inl e
       | Inr flagEntries \<Rightarrow> forEach (cliConfParser_flag cn) flagEntries)
      (nullAt (?path @ [''flags'']) ?flags
       @ (if typeof ?flags = ''object''
          then concat (map (flagViolations cn) (entriesOrEmpty ?flags)) else []))"
    if "typeof ?flags = ''object''"
    using reports_flag that by (rule reports_entries)
  have n: "nullAt ?path (Some commandConf) = []"
    using notnull by (simp add: nullAt_def)
  have "reports (cliConfParser_command (cn, commandConf)) (commandViolations (cn, commandConf))"
    unfolding cliConfParser_command_def commandViolations_def Let_def fst_conv snd_conv n
      append_Nil isString_eq isObject_eq
    by (intro reports_field_keys [where c = "CHR ''d''"] reports_field reports_seq
          notnull c d0 d1 d2 d3 d4 d5 args flags)
  then show ?thesis by (simp add: entry)
qed

lemma reports_check:
  "reports (cliConfParser_check cliConfObj) (configViolations cliConfObj)"
proof (cases "cliConfObj = JNull")
  case True
  then show ?thesis
    by (simp add: cliConfParser_check_def configViolations_def nullAt_def reports_null Let_def)
next
  case False
  let ?cmds = "getProp cliConfObj ''commands''"
  have d0: "''Config must have a name property''
      = diagnostic ([] @ [''name'']) Missing"
    by (simp add: diagnostic_def)
  have d1: "''The name property must be a string''
      = diagnostic ([] @ [''name'']) Mistyped"
    by (simp add: diagnostic_def)
  have d2: "''Config must have a version property''
      = diagnostic ([] @ [''version'']) Missing"
    by (simp add: diagnostic_def)
  have d3: "''The version property must be a string''
      = diagnostic ([] @ [''version'']) Mistyped"
    by (simp add: diagnostic_def)
  have d4: "''Config must have a description property''
      = diagnostic ([] @ [''description'']) Missing"
    by (simp add: diagnostic_def)
  have d5: "''The description property must be a string''
      = diagnostic ([] @ [''description'']) Mistyped"
    by (simp add: diagnostic_def)
  have d6: "''Config must have a commands property''
      = diagnostic ([] @ [''commands'']) Missing"
    by (simp add: diagnostic_def)
  have d7: "''The commands property must be an object''
      = diagnostic ([] @ [''commands'']) Mistyped"
    by (simp add: diagnostic_def)
  have cmds: "reports
      (case entriesOf ?cmds of
         Inl e \<Rightarrow> Inl e
       | Inr commandEntries \<Rightarrow> forEach cliConfParser_command commandEntries)
      (nullAt [''commands''] ?cmds
       @ (if typeof ?cmds = ''object''
          then concat (map commandViolations (entriesOrEmpty ?cmds)) else []))"
    if "typeof ?cmds = ''object''"
    using reports_command that by (rule reports_entries)
  have n: "nullAt [] (Some cliConfObj) = []"
    using False by (simp add: nullAt_def)
  show ?thesis
    unfolding cliConfParser_check_def configViolations_def Let_def n append_Nil
      isString_eq isObject_eq
    by (intro reports_field False d0 d1 d2 d3 d4 d5 d6 d7 cmds)
qed

lemmas violation_defs =
  configViolations_def commandViolations_def argViolations_def flagViolations_def
  fieldViolation_def nullAt_def isString_def isObject_def isPrimitive_def entriesOrEmpty_def
  indices_def show_nat.simps allowedTypes_def Let_def

subsection \<open>What the diagnostic of a field names\<close>

lemma fieldViolation_mem:
  "(p, k) \<in> set (fieldViolation path obj field wellTyped) \<Longrightarrow> p = path @ [field]"
  by (auto simp: fieldViolation_def split: if_splits)

lemma nullAt_mem: "(p, k) \<in> set (nullAt path v) \<Longrightarrow> k = NullValue"
  by (auto simp: nullAt_def split: if_splits)

lemma flagViolations_shape:
  assumes "(p, k) \<in> set (flagViolations cn flagEntry)" and "k \<noteq> NullValue"
  shows "\<exists>fn field. p = [''commands'', cn, ''flags'', fn, field]
           \<and> field \<in> {''type'', ''default'', ''description'', ''alias''}"
proof -
  let ?path = "[''commands'', cn, ''flags'', fst flagEntry]"
  from assms(1) have
    "(p, k) \<in> set (nullAt ?path (Some (snd flagEntry)))
     \<or> (p, k) \<in> set (fieldViolation ?path (snd flagEntry) ''type'' includesAllowed)
     \<or> (p, k) \<in> set (fieldViolation ?path (snd flagEntry) ''default'' isPrimitive)
     \<or> (p, k) \<in> set (fieldViolation ?path (snd flagEntry) ''description'' isString)
     \<or> (p, k) \<in> set (fieldViolation ?path (snd flagEntry) ''alias'' isString)"
    unfolding flagViolations_def Let_def set_append Un_iff by blast
  then have "p = ?path @ [''type''] \<or> p = ?path @ [''default'']
             \<or> p = ?path @ [''description''] \<or> p = ?path @ [''alias'']"
    using assms(2) nullAt_mem [of p k] fieldViolation_mem [of p k] by blast
  then show ?thesis by auto
qed

lemma argViolations_shape:
  assumes "(p, k) \<in> set (argViolations cn argEntry)" and "k \<noteq> NullValue"
  shows "\<exists>idx. p = [''commands'', cn, ''args'', idx, ''name'']"
proof -
  let ?path = "[''commands'', cn, ''args'', fst argEntry]"
  from assms(1) have
    "(p, k) \<in> set (nullAt ?path (Some (snd argEntry)))
     \<or> (p, k) \<in> set (fieldViolation ?path (snd argEntry) ''name'' isString)"
    unfolding argViolations_def Let_def set_append Un_iff by blast
  then have "p = ?path @ [''name'']"
    using assms(2) nullAt_mem [of p k] fieldViolation_mem [of p k] by blast
  then show ?thesis by auto
qed

lemma concat_map_mem:
  "v \<in> set (concat (map f xs)) \<Longrightarrow> \<exists>x. v \<in> set (f x)"
  by auto

lemma commandViolations_shape:
  fixes commandEntry :: "string \<times> 'n json"
  assumes "(p, k) \<in> set (commandViolations commandEntry)" and "k \<noteq> NullValue"
  shows "(\<exists>cn field. p = [''commands'', cn, field]
            \<and> field \<in> {''description'', ''args'', ''flags''})
       \<or> (\<exists>cn idx. p = [''commands'', cn, ''args'', idx, ''name''])
       \<or> (\<exists>cn fn field. p = [''commands'', cn, ''flags'', fn, field]
            \<and> field \<in> {''type'', ''default'', ''description'', ''alias''})"
proof -
  let ?cn = "fst commandEntry"
  let ?conf = "snd commandEntry"
  let ?path = "[''commands'', ?cn]"
  let ?args = "elements (getProp ?conf ''args'')"
  let ?flags = "getProp ?conf ''flags''"
  from assms(1) have
    "(p, k) \<in> set (nullAt ?path (Some ?conf))
     \<or> (p, k) \<in> set (fieldViolation ?path ?conf ''description'' isString)
     \<or> (p, k) \<in> set (fieldViolation ?path ?conf ''args'' isArray)
     \<or> (p, k) \<in> set (concat (map (argViolations ?cn) (zip (indices (length ?args)) ?args)))
     \<or> (p, k) \<in> set (fieldViolation ?path ?conf ''flags'' isObject)
     \<or> (p, k) \<in> set (nullAt (?path @ [''flags'']) ?flags)
     \<or> (p, k) \<in> set (if isObject ?flags
                         then concat (map (flagViolations ?cn) (entriesOrEmpty ?flags))
                         else [])"
    unfolding commandViolations_def Let_def set_append Un_iff by blast
  then show ?thesis
  proof (elim disjE)
    assume "(p, k) \<in> set (nullAt ?path (Some ?conf))"
    from nullAt_mem [OF this] assms(2) show ?thesis by simp
  next
    assume "(p, k) \<in> set (fieldViolation ?path ?conf ''description'' isString)"
    from fieldViolation_mem [OF this] show ?thesis by simp
  next
    assume "(p, k) \<in> set (fieldViolation ?path ?conf ''args'' isArray)"
    from fieldViolation_mem [OF this] show ?thesis by simp
  next
    assume "(p, k) \<in> set (concat (map (argViolations ?cn) (zip (indices (length ?args)) ?args)))"
    from concat_map_mem [OF this] obtain argEntry :: "string \<times> 'n json"
      where "(p, k) \<in> set (argViolations ?cn argEntry)" by blast
    from argViolations_shape [OF this assms(2)] show ?thesis by blast
  next
    assume "(p, k) \<in> set (fieldViolation ?path ?conf ''flags'' isObject)"
    from fieldViolation_mem [OF this] show ?thesis by simp
  next
    assume "(p, k) \<in> set (nullAt (?path @ [''flags'']) ?flags)"
    from nullAt_mem [OF this] assms(2) show ?thesis by simp
  next
    assume "(p, k) \<in> set (if isObject ?flags
                         then concat (map (flagViolations ?cn) (entriesOrEmpty ?flags))
                         else [])"
    then have "(p, k) \<in> set (concat (map (flagViolations ?cn) (entriesOrEmpty ?flags)))"
      by (cases "isObject ?flags") simp_all
    from concat_map_mem [OF this] obtain flagEntry :: "string \<times> 'n json"
      where "(p, k) \<in> set (flagViolations ?cn flagEntry)" by blast
    from flagViolations_shape [OF this assms(2)] show ?thesis by blast
  qed
qed

lemma configViolations_shape:
  fixes cliConfObj :: "'n json"
  assumes "(p, k) \<in> set (configViolations cliConfObj)" and "k \<noteq> NullValue"
  shows "(\<exists>field. p = [field]
            \<and> field \<in> {''name'', ''version'', ''description'', ''commands''})
       \<or> (\<exists>cn field. p = [''commands'', cn, field]
            \<and> field \<in> {''description'', ''args'', ''flags''})
       \<or> (\<exists>cn idx. p = [''commands'', cn, ''args'', idx, ''name''])
       \<or> (\<exists>cn fn field. p = [''commands'', cn, ''flags'', fn, field]
            \<and> field \<in> {''type'', ''default'', ''description'', ''alias''})"
proof -
  let ?cmds = "getProp cliConfObj ''commands''"
  from assms(1) have
    "(p, k) \<in> set (nullAt [] (Some cliConfObj))
     \<or> (p, k) \<in> set (fieldViolation [] cliConfObj ''name'' isString)
     \<or> (p, k) \<in> set (fieldViolation [] cliConfObj ''version'' isString)
     \<or> (p, k) \<in> set (fieldViolation [] cliConfObj ''description'' isString)
     \<or> (p, k) \<in> set (fieldViolation [] cliConfObj ''commands'' isObject)
     \<or> (p, k) \<in> set (nullAt [''commands''] ?cmds)
     \<or> (p, k) \<in> set (if isObject ?cmds
                         then concat (map commandViolations (entriesOrEmpty ?cmds)) else [])"
    unfolding configViolations_def Let_def set_append Un_iff by blast
  then show ?thesis
  proof (elim disjE)
    assume "(p, k) \<in> set (nullAt [] (Some cliConfObj))"
    from nullAt_mem [OF this] assms(2) show ?thesis by simp
  next
    assume "(p, k) \<in> set (fieldViolation [] cliConfObj ''name'' isString)"
    from fieldViolation_mem [OF this] show ?thesis by simp
  next
    assume "(p, k) \<in> set (fieldViolation [] cliConfObj ''version'' isString)"
    from fieldViolation_mem [OF this] show ?thesis by simp
  next
    assume "(p, k) \<in> set (fieldViolation [] cliConfObj ''description'' isString)"
    from fieldViolation_mem [OF this] show ?thesis by simp
  next
    assume "(p, k) \<in> set (fieldViolation [] cliConfObj ''commands'' isObject)"
    from fieldViolation_mem [OF this] show ?thesis by simp
  next
    assume "(p, k) \<in> set (nullAt [''commands''] ?cmds)"
    from nullAt_mem [OF this] assms(2) show ?thesis by simp
  next
    assume "(p, k) \<in> set (if isObject ?cmds
                         then concat (map commandViolations (entriesOrEmpty ?cmds)) else [])"
    then have "(p, k) \<in> set (concat (map commandViolations (entriesOrEmpty ?cmds)))"
      by (cases "isObject ?cmds") simp_all
    from concat_map_mem [OF this] obtain commandEntry :: "string \<times> 'n json"
      where "(p, k) \<in> set (commandViolations commandEntry)" by blast
    from commandViolations_shape [OF this assms(2)] show ?thesis by blast
  qed
qed

lemma mentions_both:
  assumes "m = a @ holder @ b" and "mentions a field \<or> mentions b field"
  shows "mentions m field \<and> mentions m holder"
proof
  show "mentions m holder" using assms(1) by (rule mentionsI)
  from assms(2) show "mentions m field"
  proof
    assume "mentions a field"
    then show ?thesis unfolding assms(1) by (rule mentions_append_left)
  next
    assume "mentions b field"
    have "\<exists>x y. b = x @ field @ y" if "mentions b field" for b :: string
      using that
    proof (induction b)
      case Nil
      then show ?case by simp
    next
      case (Cons c cs)
      from Cons.prems have "take (length field) (c # cs) = field \<or> mentions cs field" by simp
      then show ?case
      proof
        assume "take (length field) (c # cs) = field"
        then have "c # cs = [] @ field @ drop (length field) (c # cs)"
          by (metis append_Nil append_take_drop_id)
        then show ?thesis by blast
      next
        assume "mentions cs field"
        from Cons.IH [OF this] obtain x y where "cs = x @ field @ y" by blast
        then have "c # cs = (c # x) @ field @ y" by simp
        then show ?thesis by blast
      qed
    qed
    from this [OF \<open>mentions b field\<close>] obtain x y where "b = x @ field @ y" by blast
    then have "m = (a @ holder @ x) @ field @ y" using assms(1) by simp
    then show ?thesis by (rule mentionsI)
  qed
qed

lemma names_command_field:
  assumes "field \<in> {''description'', ''args'', ''flags''}" and "k \<noteq> NullValue"
  shows "mentions (diagnostic [''commands'', cn, field] k) field
       \<and> mentions (diagnostic [''commands'', cn, field] k) (dotted [''commands'', cn])"
proof -
  have k: "k = Missing \<or> k = Mistyped" using assms(2) by (cases k) simp_all
  have d0: "mentions (diagnostic [''commands'', cn, ''description''] Missing) ''description''
          \<and> mentions (diagnostic [''commands'', cn, ''description''] Missing)
              (dotted [''commands'', cn])"
    by (rule mentions_both [where a = "''the ''"
          and b = "''.description property in config was required''"])
       (simp_all add: diagnostic_def dotted_def)
  have d1: "mentions (diagnostic [''commands'', cn, ''description''] Mistyped) ''description''
          \<and> mentions (diagnostic [''commands'', cn, ''description''] Mistyped)
              (dotted [''commands'', cn])"
    by (rule mentions_both [where a = "''the ''"
          and b = "''.description property must be a string''"])
       (simp_all add: diagnostic_def dotted_def)
  have d2: "mentions (diagnostic [''commands'', cn, ''args''] Missing) ''args''
          \<and> mentions (diagnostic [''commands'', cn, ''args''] Missing) (dotted [''commands'', cn])"
    by (rule mentions_both [where a = "''The command must have an args property in ''"
          and b = "[]"])
       (simp_all add: diagnostic_def dotted_def)
  have d3: "mentions (diagnostic [''commands'', cn, ''args''] Mistyped) ''args''
          \<and> mentions (diagnostic [''commands'', cn, ''args''] Mistyped) (dotted [''commands'', cn])"
    by (rule mentions_both [where a = "''The command args property must be an array in ''"
          and b = "[]"])
       (simp_all add: diagnostic_def dotted_def)
  have d4: "mentions (diagnostic [''commands'', cn, ''flags''] Missing) ''flags''
          \<and> mentions (diagnostic [''commands'', cn, ''flags''] Missing) (dotted [''commands'', cn])"
    by (rule mentions_both [where a = "''The command must have an flags property in ''"
          and b = "[]"])
       (simp_all add: diagnostic_def dotted_def)
  have d5: "mentions (diagnostic [''commands'', cn, ''flags''] Mistyped) ''flags''
          \<and> mentions (diagnostic [''commands'', cn, ''flags''] Mistyped) (dotted [''commands'', cn])"
    by (rule mentions_both [where a = "''The command flags property must be an object in ''"
          and b = "[]"])
       (simp_all add: diagnostic_def dotted_def)
  from assms(1) k d0 d1 d2 d3 d4 d5 show ?thesis by blast
qed

lemma names_arg_field:
  assumes "k \<noteq> NullValue"
  shows "mentions (diagnostic [''commands'', cn, ''args'', idx, ''name''] k) ''name''
       \<and> mentions (diagnostic [''commands'', cn, ''args'', idx, ''name''] k)
           (dotted [''commands'', cn])"
proof -
  have k: "k = Missing \<or> k = Mistyped" using assms by (cases k) simp_all
  have d0: "mentions (diagnostic [''commands'', cn, ''args'', idx, ''name''] Missing) ''name''
          \<and> mentions (diagnostic [''commands'', cn, ''args'', idx, ''name''] Missing)
              (dotted [''commands'', cn])"
    by (rule mentions_both [where a = "''The command arg must have a name property in ''"
          and b = "[]"])
       (simp_all add: diagnostic_def dotted_def)
  have d1: "mentions (diagnostic [''commands'', cn, ''args'', idx, ''name''] Mistyped) ''name''
          \<and> mentions (diagnostic [''commands'', cn, ''args'', idx, ''name''] Mistyped)
              (dotted [''commands'', cn])"
    by (rule mentions_both [where a = "''The command arg name property must be a string in ''"
          and b = "[]"])
       (simp_all add: diagnostic_def dotted_def)
  from k d0 d1 show ?thesis by blast
qed

lemma names_flag_type_missing:
  "mentions (diagnostic [''commands'', cn, ''flags'', fn, ''type''] Missing) ''type''"
proof -
  have "mentions (diagnostic [''commands'', cn, ''flags'', fn, ''type''] Missing) ''type''
      \<and> mentions (diagnostic [''commands'', cn, ''flags'', fn, ''type''] Missing)
          (dotted [''commands'', cn])"
    by (rule mentions_both [where a = "''The command flag must have a type property in ''"
          and b = "[]"])
       (simp_all add: diagnostic_def dotted_def)
  then show ?thesis by simp
qed

lemma names_flag_field:
  assumes "field \<in> {''type'', ''default'', ''description'', ''alias''}" and "k \<noteq> NullValue"
    and "\<not> (field = ''type'' \<and> k = Missing)"
  shows "mentions (diagnostic [''commands'', cn, ''flags'', fn, field] k) field
       \<and> mentions (diagnostic [''commands'', cn, ''flags'', fn, field] k)
           (dotted [''commands'', cn, ''flags'', fn])"
proof -
  let ?holder = "dotted [''commands'', cn, ''flags'', fn]"
  have k: "k = Missing \<or> k = Mistyped" using assms(2) by (cases k) simp_all
  have d1: "mentions (diagnostic [''commands'', cn, ''flags'', fn, ''type''] Mistyped) ''type''
          \<and> mentions (diagnostic [''commands'', cn, ''flags'', fn, ''type''] Mistyped) ?holder"
    by (rule mentions_both
          [where a = "''The command flag type property must be a string, number or boolean in ''"
             and b = "[]"])
       (simp_all add: diagnostic_def dotted_def)
  have d2: "mentions (diagnostic [''commands'', cn, ''flags'', fn, ''default''] Missing) ''default''
          \<and> mentions (diagnostic [''commands'', cn, ''flags'', fn, ''default''] Missing) ?holder"
    by (rule mentions_both
          [where a = "''The command flag must have a default property in ''" and b = "[]"])
       (simp_all add: diagnostic_def dotted_def)
  have d3: "mentions (diagnostic [''commands'', cn, ''flags'', fn, ''default''] Mistyped) ''default''
          \<and> mentions (diagnostic [''commands'', cn, ''flags'', fn, ''default''] Mistyped) ?holder"
    by (rule mentions_both
          [where a = "''The command flag default property must be a string, number or boolean in ''"
             and b = "[]"])
       (simp_all add: diagnostic_def dotted_def)
  have d4: "mentions (diagnostic [''commands'', cn, ''flags'', fn, ''description''] Missing)
              ''description''
          \<and> mentions (diagnostic [''commands'', cn, ''flags'', fn, ''description''] Missing) ?holder"
    by (rule mentions_both
          [where a = "''The command flag must have a description property in ''" and b = "[]"])
       (simp_all add: diagnostic_def dotted_def)
  have d5: "mentions (diagnostic [''commands'', cn, ''flags'', fn, ''description''] Mistyped)
              ''description''
          \<and> mentions (diagnostic [''commands'', cn, ''flags'', fn, ''description''] Mistyped) ?holder"
    by (rule mentions_both
          [where a = "''The command flag description property must be a string in ''"
             and b = "[]"])
       (simp_all add: diagnostic_def dotted_def)
  have d6: "mentions (diagnostic [''commands'', cn, ''flags'', fn, ''alias''] Missing) ''alias''
          \<and> mentions (diagnostic [''commands'', cn, ''flags'', fn, ''alias''] Missing) ?holder"
    by (rule mentions_both
          [where a = "''The command flag must have an alias property in ''" and b = "[]"])
       (simp_all add: diagnostic_def dotted_def)
  have d7: "mentions (diagnostic [''commands'', cn, ''flags'', fn, ''alias''] Mistyped) ''alias''
          \<and> mentions (diagnostic [''commands'', cn, ''flags'', fn, ''alias''] Mistyped) ?holder"
    by (rule mentions_both
          [where a = "''The command flag alias property must be a string in ''" and b = "[]"])
       (simp_all add: diagnostic_def dotted_def)
  from assms(1,3) k d1 d2 d3 d4 d5 d6 d7 show ?thesis by blast
qed

lemma names_top_field:
  assumes "field \<in> {''name'', ''version'', ''description'', ''commands''}" and "k \<noteq> NullValue"
  shows "mentions (diagnostic [field] k) field"
proof -
  have k: "k = Missing \<or> k = Mistyped" using assms(2) by (cases k) simp_all
  have "mentions (diagnostic [''name''] Missing) ''name''"
       "mentions (diagnostic [''name''] Mistyped) ''name''"
       "mentions (diagnostic [''version''] Missing) ''version''"
       "mentions (diagnostic [''version''] Mistyped) ''version''"
       "mentions (diagnostic [''description''] Missing) ''description''"
       "mentions (diagnostic [''description''] Mistyped) ''description''"
       "mentions (diagnostic [''commands''] Missing) ''commands''"
       "mentions (diagnostic [''commands''] Mistyped) ''commands''"
    by (simp_all add: diagnostic_def)
  with assms(1) k show ?thesis by blast
qed

lemma configViolations_named:
  fixes cliConfObj :: "'n json"
  assumes "(p, k) \<in> set (configViolations cliConfObj)" and "k \<noteq> NullValue"
  shows "mentions (diagnostic p k) (last p)
         \<and> (length p = 3 \<longrightarrow> mentions (diagnostic p k) (dotted (butlast p)))
         \<and> (length p = 5 \<and> p ! 2 = ''flags'' \<and> \<not> (last p = ''type'' \<and> k = Missing)
              \<longrightarrow> mentions (diagnostic p k) (dotted (butlast p)))
         \<and> (length p = 5 \<and> p ! 2 = ''args''
              \<longrightarrow> mentions (diagnostic p k) (dotted (take 2 p)))"
  using configViolations_shape [OF assms]
proof (elim disjE exE conjE)
  fix field
  assume p: "p = [field]"
    and field: "field \<in> {''name'', ''version'', ''description'', ''commands''}"
  from names_top_field [OF field assms(2)] show ?thesis
    unfolding p by simp
next
  fix cn field
  assume p: "p = [''commands'', cn, field]"
    and field: "field \<in> {''description'', ''args'', ''flags''}"
  from names_command_field [OF field assms(2), of cn] show ?thesis
    unfolding p by simp
next
  fix cn idx
  assume p: "p = [''commands'', cn, ''args'', idx, ''name'']"
  from names_arg_field [OF assms(2), of cn idx] show ?thesis
    unfolding p by simp
next
  fix cn fn field
  assume p: "p = [''commands'', cn, ''flags'', fn, field]"
    and field: "field \<in> {''type'', ''default'', ''description'', ''alias''}"
  show ?thesis
  proof (cases "field = ''type'' \<and> k = Missing")
    case True
    then show ?thesis using names_flag_type_missing [of cn fn] unfolding p by simp
  next
    case False
    from names_flag_field [OF field assms(2) False, of cn fn] show ?thesis
      unfolding p by simp
  qed
qed

text \<open>
  C7, as amended. The validator checks the fields in the traversal order name, version,
  description, commands, then per command description, args (the name of each slot),
  flags and per flag type, default, description, alias, and aborts on the first
  violation: it succeeds when no field is violated, and otherwise its outcome is the
  one of the first violated field in that order, whatever the later fields are: the
  diagnostic of that field when it is missing or mistyped (an uncaught \<open>TypeError\<close>
  when it is a \<open>null\<close> where an object is read). The diagnostic of a missing or mistyped
  field mentions the field's name; for a field of a command and for a field of a flag it
  mentions the dotted path of the object that holds the field, a missing \<open>type\<close> of a
  flag excepted, for which nothing is stated about the path; for the \<open>name\<close> of a
  positional slot it mentions the path of the command, not the slot.
\<close>

theorem cliConfParser_check_first_violation:
  "cliConfParser_check cliConfObj
     = (case configViolations cliConfObj of
          [] \<Rightarrow> Inr ()
        | first # others \<Rightarrow>
            if snd first = NullValue then Inl TypeError
            else Inl (ExitError (diagnostic (fst first) (snd first))))
   \<and> (configViolations cliConfObj = (path, kind) # rest \<and> kind \<noteq> NullValue \<longrightarrow>
        mentions (diagnostic path kind) (last path)
        \<and> (length path = 3 \<longrightarrow> mentions (diagnostic path kind) (dotted (butlast path)))
        \<and> (length path = 5 \<and> path ! 2 = ''flags'' \<and> \<not> (last path = ''type'' \<and> kind = Missing)
             \<longrightarrow> mentions (diagnostic path kind) (dotted (butlast path)))
        \<and> (length path = 5 \<and> path ! 2 = ''args''
             \<longrightarrow> mentions (diagnostic path kind) (dotted (take 2 path))))"
proof (rule conjI)
  show "cliConfParser_check cliConfObj
     = (case configViolations cliConfObj of
          [] \<Rightarrow> Inr ()
        | first # others \<Rightarrow>
            if snd first = NullValue then Inl TypeError
            else Inl (ExitError (diagnostic (fst first) (snd first))))"
    using reports_check [of cliConfObj]
    by (cases "configViolations cliConfObj") (simp_all add: reports_def)
next
  show "configViolations cliConfObj = (path, kind) # rest \<and> kind \<noteq> NullValue \<longrightarrow>
        mentions (diagnostic path kind) (last path)
        \<and> (length path = 3 \<longrightarrow> mentions (diagnostic path kind) (dotted (butlast path)))
        \<and> (length path = 5 \<and> path ! 2 = ''flags'' \<and> \<not> (last path = ''type'' \<and> kind = Missing)
             \<longrightarrow> mentions (diagnostic path kind) (dotted (butlast path)))
        \<and> (length path = 5 \<and> path ! 2 = ''args''
             \<longrightarrow> mentions (diagnostic path kind) (dotted (take 2 path)))"
  proof
    assume first: "configViolations cliConfObj = (path, kind) # rest \<and> kind \<noteq> NullValue"
    then have mem: "(path, kind) \<in> set (configViolations cliConfObj)"
      and kind: "kind \<noteq> NullValue" by simp_all
    show "mentions (diagnostic path kind) (last path)
        \<and> (length path = 3 \<longrightarrow> mentions (diagnostic path kind) (dotted (butlast path)))
        \<and> (length path = 5 \<and> path ! 2 = ''flags'' \<and> \<not> (last path = ''type'' \<and> kind = Missing)
             \<longrightarrow> mentions (diagnostic path kind) (dotted (butlast path)))
        \<and> (length path = 5 \<and> path ! 2 = ''args''
             \<longrightarrow> mentions (diagnostic path kind) (dotted (take 2 path)))"
      using mem kind by (rule configViolations_named)
  qed
qed

theorem cliConfParser_check_first_violation_witness:
  "configViolations (appJson :: int json) = []
   \<and> cliConfParser_check (appJson :: int json) = Inr ()
   \<and> configViolations (twoViolationsJson :: int json)
       = [([''commands'', ''init'', ''description''], Mistyped),
          ([''commands'', ''init'', ''flags'', ''force'', ''alias''], Missing)]
   \<and> cliConfParser_check (twoViolationsJson :: int json)
       = Inl (ExitError ''the commands.init.description property must be a string'')
   \<and> mentions ''the commands.init.description property must be a string'' ''description''
   \<and> mentions ''the commands.init.description property must be a string'' ''commands.init''"
proof -
  have none: "configViolations (appJson :: int json) = []"
    by (simp add: appJson_def violation_defs)
  have two: "configViolations (twoViolationsJson :: int json)
       = [([''commands'', ''init'', ''description''], Mistyped),
          ([''commands'', ''init'', ''flags'', ''force'', ''alias''], Missing)]"
    by (simp add: twoViolationsJson_def violation_defs)
  have message: "diagnostic [''commands'', ''init'', ''description''] Mistyped
                   = ''the commands.init.description property must be a string''"
    by (simp add: diagnostic_def)
  from cliConfParser_check_first_violation [of "appJson :: int json"] none
  have valid: "cliConfParser_check (appJson :: int json) = Inr ()" by simp
  from cliConfParser_check_first_violation
         [of "twoViolationsJson :: int json" "[''commands'', ''init'', ''description'']" Mistyped
             "[([''commands'', ''init'', ''flags'', ''force'', ''alias''], Missing)]"]
  have "cliConfParser_check (twoViolationsJson :: int json)
       = Inl (ExitError ''the commands.init.description property must be a string'')
     \<and> mentions ''the commands.init.description property must be a string'' ''description''
     \<and> mentions ''the commands.init.description property must be a string'' ''commands.init''"
    by (simp add: two message dotted_def)
  with none valid two show ?thesis by simp
qed

text \<open>
  C7, as stated, fails: for a positional slot without a name the diagnostic names the
  command but not the slot, so it does not name the exact path of the field, and the
  first and the second slot of a command get the same diagnostic.
\<close>

theorem cliConfParser_check_arg_path_counterexample:
  "configViolations (arglessJson :: int json)
     = [([''commands'', ''init'', ''args'', ''0'', ''name''], Missing)]
   \<and> cliConfParser_check (arglessJson :: int json)
       = Inl (ExitError ''The command arg must have a name property in commands.init'')
   \<and> \<not> namesField ''The command arg must have a name property in commands.init''
         [''commands'', ''init'', ''args'', ''0'', ''name'']
   \<and> configViolations (secondArglessJson :: int json)
       = [([''commands'', ''init'', ''args'', ''1'', ''name''], Missing)]
   \<and> cliConfParser_check (secondArglessJson :: int json)
       = cliConfParser_check (arglessJson :: int json)"
  by (simp add: arglessJson_def secondArglessJson_def violation_defs validate_defs
        namesField_def dotted_def)

end
